theory Spec2Isabelle
  imports Main "HOL-Library.Word"
begin

section \<open>Tags, values and errors\<close>

text \<open>
  Modelled from the spec: \<^verbatim>\<open>DicomTag.h\<close> is not among the sources. A tag is a pair of two
  16-bit integers (group, element), ordered group major and element minor; two tags are
  equal iff both fields match.
\<close>

datatype DicomTag = DicomTag (GetGroup: "16 word") (GetElement: "16 word")

definition tag_less :: "DicomTag \<Rightarrow> DicomTag \<Rightarrow> bool" where
  "tag_less a b \<longleftrightarrow>
     GetGroup a < GetGroup b \<or> (GetGroup a = GetGroup b \<and> GetElement a < GetElement b)"

text \<open>
  Modelled from the spec: \<^verbatim>\<open>DicomValue.h\<close> and \<^verbatim>\<open>DicomString.h\<close> are not among the sources.
  The map operations below are polymorphic in the content \<open>'v\<close> of a value; the only
  subclass the sources construct is \<^verbatim>\<open>DicomString\<close>, which holds a string.
\<close>

datatype DicomValue = DicomString string

text \<open>
  \<open>OrthancException\<close> is the exception the sources throw. \<open>MemoryFault\<close> is not an
  exception of the program: it stands for the undefined behaviour of C++ when a pointer
  that does not refer to a live object is dereferenced or deleted.
\<close>

datatype error = OrthancException string | MemoryFault

definition and_then :: "error + 'a \<Rightarrow> ('a \<Rightarrow> error + 'b) \<Rightarrow> error + 'b" where
  "and_then x f = (case x of Inl e \<Rightarrow> Inl e | Inr a \<Rightarrow> f a)"

section \<open>The free store\<close>

text \<open>
  A \<^verbatim>\<open>DicomValue*\<close> is an address into the free store. The store is a list of cells
  indexed by address; a cell is \<open>Some v\<close> while the object is live and \<open>None\<close> once it has
  been deleted. \<^verbatim>\<open>new\<close> takes the next address, so it never returns the address of a live
  object.
\<close>

type_synonym addr = nat
type_synonym 'v heap = "'v option list"

definition heap_get :: "'v heap \<Rightarrow> addr \<Rightarrow> 'v option" where
  "heap_get h p = (if p < length h then h ! p else None)"

definition cpp_new :: "'v heap \<Rightarrow> 'v \<Rightarrow> addr \<times> 'v heap" where
  "cpp_new h v = (length h, h @ [Some v])"

definition cpp_delete :: "'v heap \<Rightarrow> addr \<Rightarrow> error + 'v heap" where
  "cpp_delete h p =
     (case heap_get h p of None \<Rightarrow> Inl MemoryFault | Some _ \<Rightarrow> Inr (h[p := None]))"

text \<open>
  Modelled from the spec: \<^verbatim>\<open>DicomValue::Clone\<close> returns a new, independently owned value
  with equivalent content.
\<close>

definition DicomValue_Clone :: "'v heap \<Rightarrow> addr \<Rightarrow> error + (addr \<times> 'v heap)" where
  "DicomValue_Clone h p =
     (case heap_get h p of None \<Rightarrow> Inl MemoryFault | Some v \<Rightarrow> Inr (cpp_new h v))"

section \<open>The container \<^verbatim>\<open>std::map<DicomTag, DicomValue*>\<close>\<close>

text \<open>
  The member \<^verbatim>\<open>map_\<close> is a list of (tag, pointer) entries in iteration order.
  \<open>map_find\<close> is \<^verbatim>\<open>find\<close> (the entry, or \<open>None\<close> for \<^verbatim>\<open>end()\<close>), \<open>map_insert\<close> is
  \<^verbatim>\<open>insert\<close> (which leaves the container alone when the key is there already),
  \<open>map_assign\<close> is the assignment \<^verbatim>\<open>it->second = value\<close> through the iterator that
  \<^verbatim>\<open>find\<close> returned, and \<open>map_erase\<close> is \<^verbatim>\<open>erase(it)\<close> for that iterator.
\<close>

type_synonym Map = "(DicomTag \<times> addr) list"

definition map_find :: "Map \<Rightarrow> DicomTag \<Rightarrow> (DicomTag \<times> addr) option" where
  "map_find m tag = List.find (\<lambda>e. fst e = tag) m"

fun map_insert :: "DicomTag \<Rightarrow> addr \<Rightarrow> Map \<Rightarrow> Map" where
  "map_insert tag p [] = [(tag, p)]"
| "map_insert tag p (e # es) =
     (if fst e = tag then e # es
      else if tag_less tag (fst e) then (tag, p) # e # es
      else e # map_insert tag p es)"

fun map_assign :: "DicomTag \<Rightarrow> addr \<Rightarrow> Map \<Rightarrow> Map" where
  "map_assign tag p [] = []"
| "map_assign tag p (e # es) =
     (if fst e = tag then (fst e, p) # es else e # map_assign tag p es)"

fun map_erase :: "DicomTag \<Rightarrow> Map \<Rightarrow> Map" where
  "map_erase tag [] = []"
| "map_erase tag (e # es) = (if fst e = tag then es else e # map_erase tag es)"

section \<open>The level registries\<close>

definition patientTags :: "DicomTag list" where
  "patientTags =
     [DicomTag 0x0010 0x0010, DicomTag 0x0010 0x0020, DicomTag 0x0010 0x0030,
      DicomTag 0x0010 0x0040, DicomTag 0x0010 0x1000]"

definition studyTags :: "DicomTag list" where
  "studyTags =
     [DicomTag 0x0008 0x0020, DicomTag 0x0008 0x0030, DicomTag 0x0008 0x0050,
      DicomTag 0x0008 0x1030, DicomTag 0x0020 0x000d, DicomTag 0x0020 0x0010]"

definition seriesTags :: "DicomTag list" where
  "seriesTags =
     [DicomTag 0x0008 0x0021, DicomTag 0x0008 0x0031, DicomTag 0x0008 0x0060,
      DicomTag 0x0008 0x0070, DicomTag 0x0008 0x1010, DicomTag 0x0008 0x103e,
      DicomTag 0x0018 0x0015, DicomTag 0x0018 0x0024, DicomTag 0x0018 0x1030,
      DicomTag 0x0020 0x000e, DicomTag 0x0020 0x0011, DicomTag 0x0020 0x1002,
      DicomTag 0x0054 0x0081]"

definition instanceTags :: "DicomTag list" where
  "instanceTags =
     [DicomTag 0x0008 0x0012, DicomTag 0x0008 0x0013, DicomTag 0x0008 0x0018,
      DicomTag 0x0020 0x0012, DicomTag 0x0020 0x0013, DicomTag 0x0028 0x0008,
      DicomTag 0x0054 0x1330]"

text \<open>
  Modelled from the spec: the constants \<^verbatim>\<open>DicomTag::ACCESSION_NUMBER\<close>, \<^verbatim>\<open>PATIENT_ID\<close>,
  \<^verbatim>\<open>STUDY_UID\<close> and \<^verbatim>\<open>SERIES_UID\<close> are declared in \<^verbatim>\<open>DicomTag.h\<close>; the spec gives
  AccessionNumber (0008,0050), PatientID (0010,0020), StudyInstanceUID (0020,000D) and
  SeriesInstanceUID (0020,000E).
\<close>

definition ACCESSION_NUMBER :: DicomTag where "ACCESSION_NUMBER = DicomTag 0x0008 0x0050"
definition PATIENT_ID :: DicomTag where "PATIENT_ID = DicomTag 0x0010 0x0020"
definition STUDY_UID :: DicomTag where "STUDY_UID = DicomTag 0x0020 0x000d"
definition SERIES_UID :: DicomTag where "SERIES_UID = DicomTag 0x0020 0x000e"

section \<open>DicomMap\<close>

text \<open>
  A member function of \<^verbatim>\<open>DicomMap\<close> takes the free store and the \<^verbatim>\<open>map_\<close> of the object it
  is called on, and returns the new store and the new \<^verbatim>\<open>map_\<close>. A \<^verbatim>\<open>const\<close> member returns
  its result only. Two \<^verbatim>\<open>DicomMap\<close> objects are two lists; what they can share is the store.
\<close>

definition SetValue_group_element ::
  "'v heap \<Rightarrow> Map \<Rightarrow> 16 word \<Rightarrow> 16 word \<Rightarrow> addr \<Rightarrow> error + ('v heap \<times> Map)" where
  "SetValue_group_element h m grp elt val =
     (let tag = DicomTag grp elt in
      case map_find m tag of
        Some it \<Rightarrow> and_then (cpp_delete h (snd it)) (\<lambda>h'. Inr (h', map_assign tag val m))
      | None \<Rightarrow> Inr (h, map_insert tag val m))"

definition SetValue :: "'v heap \<Rightarrow> Map \<Rightarrow> DicomTag \<Rightarrow> addr \<Rightarrow> error + ('v heap \<times> Map)" where
  "SetValue h m tag val = SetValue_group_element h m (GetGroup tag) (GetElement tag) val"

text \<open>
  Modelled from the spec: the overload of \<^verbatim>\<open>SetValue\<close> that takes a string is declared in
  \<^verbatim>\<open>DicomMap.h\<close>. The templates map every tag to an empty-string value that the map owns,
  so the overload stores a newly allocated \<^verbatim>\<open>DicomString\<close>.
\<close>

definition SetValue_string ::
  "DicomValue heap \<Rightarrow> Map \<Rightarrow> DicomTag \<Rightarrow> string \<Rightarrow> error + (DicomValue heap \<times> Map)" where
  "SetValue_string h m tag str =
     (case cpp_new h (DicomString str) of (p, h') \<Rightarrow> SetValue h' m tag p)"

fun Clear_loop :: "'v heap \<Rightarrow> Map \<Rightarrow> error + 'v heap" where
  "Clear_loop h [] = Inr h"
| "Clear_loop h (it # rest) = and_then (cpp_delete h (snd it)) (\<lambda>h'. Clear_loop h' rest)"

definition Clear :: "'v heap \<Rightarrow> Map \<Rightarrow> error + ('v heap \<times> Map)" where
  "Clear h m = and_then (Clear_loop h m) (\<lambda>h'. Inr (h', []))"

text \<open>
  \<open>ExtractTags this h result tags\<close>: \<open>this\<close> is the \<^verbatim>\<open>map_\<close> of the (const) source object,
  \<open>result\<close> the \<^verbatim>\<open>map_\<close> of the output object, a different object from the source.
\<close>

fun ExtractTags_loop ::
  "Map \<Rightarrow> 'v heap \<Rightarrow> Map \<Rightarrow> DicomTag list \<Rightarrow> error + ('v heap \<times> Map)" where
  "ExtractTags_loop this h result [] = Inr (h, result)"
| "ExtractTags_loop this h result (tag # tags) =
     (case map_find this tag of
        None \<Rightarrow> ExtractTags_loop this h result tags
      | Some it \<Rightarrow>
          and_then (DicomValue_Clone h (snd it)) (\<lambda>(p, h1).
          and_then (SetValue h1 result (fst it) p) (\<lambda>(h2, result2).
          ExtractTags_loop this h2 result2 tags)))"

definition ExtractTags ::
  "Map \<Rightarrow> 'v heap \<Rightarrow> Map \<Rightarrow> DicomTag list \<Rightarrow> error + ('v heap \<times> Map)" where
  "ExtractTags this h result tags =
     and_then (Clear h result) (\<lambda>(h1, result1). ExtractTags_loop this h1 result1 tags)"

definition ExtractPatientInformation :: "Map \<Rightarrow> 'v heap \<Rightarrow> Map \<Rightarrow> error + ('v heap \<times> Map)" where
  "ExtractPatientInformation this h result = ExtractTags this h result patientTags"

definition ExtractStudyInformation :: "Map \<Rightarrow> 'v heap \<Rightarrow> Map \<Rightarrow> error + ('v heap \<times> Map)" where
  "ExtractStudyInformation this h result = ExtractTags this h result studyTags"

definition ExtractSeriesInformation :: "Map \<Rightarrow> 'v heap \<Rightarrow> Map \<Rightarrow> error + ('v heap \<times> Map)" where
  "ExtractSeriesInformation this h result = ExtractTags this h result seriesTags"

definition ExtractInstanceInformation :: "Map \<Rightarrow> 'v heap \<Rightarrow> Map \<Rightarrow> error + ('v heap \<times> Map)" where
  "ExtractInstanceInformation this h result = ExtractTags this h result instanceTags"

text \<open>
  \<open>Clone\<close> allocates a new \<^verbatim>\<open>DicomMap\<close>, whose \<^verbatim>\<open>map_\<close> starts empty, and returns it.
\<close>

fun Clone_loop :: "'v heap \<Rightarrow> Map \<Rightarrow> Map \<Rightarrow> error + ('v heap \<times> Map)" where
  "Clone_loop h result [] = Inr (h, result)"
| "Clone_loop h result (it # rest) =
     and_then (DicomValue_Clone h (snd it)) (\<lambda>(p, h1).
     Clone_loop h1 (map_insert (fst it) p result) rest)"

definition Clone :: "'v heap \<Rightarrow> Map \<Rightarrow> error + ('v heap \<times> Map)" where
  "Clone h m = Clone_loop h [] m"

text \<open>
  \<open>GetValue\<close> returns a reference to the value the map owns: its address. The content
  seen through the reference is the cell of the store at that address.
\<close>

definition GetValue :: "Map \<Rightarrow> DicomTag \<Rightarrow> error + addr" where
  "GetValue m tag =
     (case map_find m tag of
        None \<Rightarrow> Inl (OrthancException ''Inexistent tag'')
      | Some it \<Rightarrow> Inr (snd it))"

text \<open>
  Modelled from the spec: \<^verbatim>\<open>HasTag\<close> is declared in \<^verbatim>\<open>DicomMap.h\<close>; it is the pure
  predicate that tells whether the tag is a key of the map.
\<close>

definition HasTag :: "Map \<Rightarrow> DicomTag \<Rightarrow> bool" where
  "HasTag m tag \<longleftrightarrow> map_find m tag \<noteq> None"

definition Remove :: "'v heap \<Rightarrow> Map \<Rightarrow> DicomTag \<Rightarrow> error + ('v heap \<times> Map)" where
  "Remove h m tag =
     (case map_find m tag of
        Some it \<Rightarrow> and_then (cpp_delete h (snd it)) (\<lambda>h'. Inr (h', map_erase tag m))
      | None \<Rightarrow> Inr (h, m))"

fun SetupFindTemplate_loop ::
  "DicomValue heap \<Rightarrow> Map \<Rightarrow> DicomTag list \<Rightarrow> error + (DicomValue heap \<times> Map)" where
  "SetupFindTemplate_loop h result [] = Inr (h, result)"
| "SetupFindTemplate_loop h result (tag # tags) =
     and_then (SetValue_string h result tag '''') (\<lambda>(h1, result1).
     SetupFindTemplate_loop h1 result1 tags)"

definition SetupFindTemplate ::
  "DicomValue heap \<Rightarrow> Map \<Rightarrow> DicomTag list \<Rightarrow> error + (DicomValue heap \<times> Map)" where
  "SetupFindTemplate h result tags =
     and_then (Clear h result) (\<lambda>(h1, result1). SetupFindTemplate_loop h1 result1 tags)"

definition SetupFindPatientTemplate ::
  "DicomValue heap \<Rightarrow> Map \<Rightarrow> error + (DicomValue heap \<times> Map)" where
  "SetupFindPatientTemplate h result = SetupFindTemplate h result patientTags"

definition SetupFindStudyTemplate ::
  "DicomValue heap \<Rightarrow> Map \<Rightarrow> error + (DicomValue heap \<times> Map)" where
  "SetupFindStudyTemplate h result =
     and_then (SetupFindTemplate h result studyTags) (\<lambda>(h1, r1).
     and_then (SetValue_string h1 r1 ACCESSION_NUMBER '''') (\<lambda>(h2, r2).
     SetValue_string h2 r2 PATIENT_ID ''''))"

definition SetupFindSeriesTemplate ::
  "DicomValue heap \<Rightarrow> Map \<Rightarrow> error + (DicomValue heap \<times> Map)" where
  "SetupFindSeriesTemplate h result =
     and_then (SetupFindTemplate h result seriesTags) (\<lambda>(h1, r1).
     and_then (SetValue_string h1 r1 ACCESSION_NUMBER '''') (\<lambda>(h2, r2).
     and_then (SetValue_string h2 r2 PATIENT_ID '''') (\<lambda>(h3, r3).
     SetValue_string h3 r3 STUDY_UID '''')))"

definition SetupFindInstanceTemplate ::
  "DicomValue heap \<Rightarrow> Map \<Rightarrow> error + (DicomValue heap \<times> Map)" where
  "SetupFindInstanceTemplate h result =
     and_then (SetupFindTemplate h result instanceTags) (\<lambda>(h1, r1).
     and_then (SetValue_string h1 r1 ACCESSION_NUMBER '''') (\<lambda>(h2, r2).
     and_then (SetValue_string h2 r2 PATIENT_ID '''') (\<lambda>(h3, r3).
     and_then (SetValue_string h3 r3 STUDY_UID '''') (\<lambda>(h4, r4).
     SetValue_string h4 r4 SERIES_UID ''''))))"

section \<open>Ownership\<close>

text \<open>
  \<open>keys m\<close> are the tags of a map and \<open>ptrs m\<close> the pointers it holds. \<open>content h m tag\<close>
  is what a caller reads through \<open>GetValue\<close>: the content of the value for \<open>tag\<close>, or
  \<open>None\<close> when there is no live value for it.

  \<open>owns h m\<close> is the class invariant of a \<^verbatim>\<open>DicomMap\<close> in store \<open>h\<close>: the keys of the
  container are unique, every pointer refers to a live value, and no value is held twice.
\<close>

definition keys :: "Map \<Rightarrow> DicomTag set" where
  "keys m = set (map fst m)"

definition ptrs :: "Map \<Rightarrow> addr set" where
  "ptrs m = set (map snd m)"

definition content :: "'v heap \<Rightarrow> Map \<Rightarrow> DicomTag \<Rightarrow> 'v option" where
  "content h m tag = (case GetValue m tag of Inl e \<Rightarrow> None | Inr p \<Rightarrow> heap_get h p)"

definition owns :: "'v heap \<Rightarrow> Map \<Rightarrow> bool" where
  "owns h m \<longleftrightarrow>
     distinct (map fst m) \<and> distinct (map snd m) \<and> list_all (\<lambda>e. heap_get h (snd e) \<noteq> None) m"

text \<open>
  \<open>lookup m tag\<close> is the pointer that \<^verbatim>\<open>find\<close> reaches for \<open>tag\<close>, if any.
\<close>

definition lookup :: "Map \<Rightarrow> DicomTag \<Rightarrow> addr option" where
  "lookup m tag = map_option snd (map_find m tag)"

text \<open>
  The calls by which a client mutates a map: \<open>SetValue\<close> with a value it has just
  allocated, of which the map takes ownership, \<open>Remove\<close> and \<open>Clear\<close>. \<open>perform_all\<close>
  makes a sequence of such calls on one map and stops at the first failure.
\<close>

datatype 'v call = Call_SetValue DicomTag 'v | Call_Remove DicomTag | Call_Clear

fun perform :: "'v heap \<Rightarrow> Map \<Rightarrow> 'v call \<Rightarrow> error + ('v heap \<times> Map)" where
  "perform h m (Call_SetValue tag v) = (case cpp_new h v of (p, h') \<Rightarrow> SetValue h' m tag p)"
| "perform h m (Call_Remove tag) = Remove h m tag"
| "perform h m Call_Clear = Clear h m"

fun perform_all :: "'v heap \<Rightarrow> Map \<Rightarrow> 'v call list \<Rightarrow> error + ('v heap \<times> Map)" where
  "perform_all h m [] = Inr (h, m)"
| "perform_all h m (c # cs) = and_then (perform h m c) (\<lambda>(h', m'). perform_all h' m' cs)"

section \<open>FilesystemHttpHandler\<close>

text \<open>
  The handler reads the file system through \<^verbatim>\<open>boost::filesystem\<close> and writes to an
  \<^verbatim>\<open>HttpOutput\<close>. Neither is among the sources. The file system is a parameter: the three
  queries the handler makes on a path, and the entries a directory iterator yields, each
  with its file name and status. A path is the list of its components, the root first,
  and \<^verbatim>\<open>p /= c\<close> appends a component. What the handler does to the \<^verbatim>\<open>HttpOutput\<close> is the
  list of the member functions it calls on it, in order.
\<close>

type_synonym UriComponents = "string list"
type_synonym Arguments = "(string \<times> string) list"
type_synonym path = "string list"

datatype file_type = regular_file | directory_file | other_file

record filesystem =
  fs_exists :: "path \<Rightarrow> bool"
  fs_is_regular_file :: "path \<Rightarrow> bool"
  fs_is_directory :: "path \<Rightarrow> bool"
  fs_directory_iterator :: "path \<Rightarrow> (string \<times> file_type) list"

datatype HttpStatus = Orthanc_HttpStatus_404_NotFound

datatype HttpOutput_call =
    SendMethodNotAllowedError string
  | AnswerFileAutodetectContentType path
  | SendHeader HttpStatus
  | SendOkHeader string
  | SendString string

text \<open>
  The fields of the handler: \<^verbatim>\<open>pimpl_->baseUri_\<close>, \<^verbatim>\<open>pimpl_->root_\<close> and
  \<^verbatim>\<open>listDirectoryContent_\<close>.
\<close>

record FilesystemHttpHandler =
  pimpl_baseUri :: UriComponents
  pimpl_root :: path
  listDirectoryContent :: bool

definition list_item :: "string \<Rightarrow> string \<Rightarrow> string" where
  \<open>list_item h f = ''<li><a href="'' @ h @ ''">'' @ f @ ''</a></li>''\<close>

text \<open>
  \<^verbatim>\<open>Toolbox::FlattenUri\<close> is not among the sources; it is the parameter \<open>FlattenUri\<close>.
\<close>

definition OutputDirectoryContent ::
  "(UriComponents \<Rightarrow> string) \<Rightarrow> filesystem \<Rightarrow> UriComponents \<Rightarrow> path \<Rightarrow> HttpOutput_call list" where
  "OutputDirectoryContent FlattenUri fs uri p =
     [SendOkHeader ''text/html'',
      SendString ''<html>'',
      SendString ''  <body>'',
      SendString ''    <h1>Subdirectories</h1>'',
      SendString ''    <ul>'']
     @ (if length uri > 0 then [SendString (list_item (FlattenUri uri @ ''/..'') ''..'')] else [])
     @ concat (map (\<lambda>(f, status).
         if status = directory_file then [SendString (list_item (FlattenUri uri @ ''/'' @ f) f)]
         else []) (fs_directory_iterator fs p))
     @ [SendString ''    </ul>'',
        SendString ''    <h1>Files</h1>'',
        SendString ''    <ul>'']
     @ concat (map (\<lambda>(f, status).
         if status = regular_file then [SendString (list_item (FlattenUri uri @ ''/'' @ f) f)]
         else []) (fs_directory_iterator fs p))
     @ [SendString ''    </ul>'',
        SendString ''  </body>'',
        SendString ''</html>'']"

text \<open>
  The constructor. \<^verbatim>\<open>Toolbox::SplitUriComponents\<close> is not among the sources; it is the
  parameter \<open>SplitUriComponents\<close>, which may throw.
\<close>

definition FilesystemHttpHandler_ctor ::
  "(string \<Rightarrow> error + UriComponents) \<Rightarrow> filesystem \<Rightarrow> string \<Rightarrow> string \<Rightarrow>
   error + FilesystemHttpHandler" where
  "FilesystemHttpHandler_ctor SplitUriComponents fs baseUri root =
     and_then (SplitUriComponents baseUri) (\<lambda>components.
       let this = \<lparr>pimpl_baseUri = components, pimpl_root = [root], listDirectoryContent = False\<rparr> in
       if \<not> fs_exists fs (pimpl_root this) \<or> \<not> fs_is_directory fs (pimpl_root this)
       then Inl (OrthancException ''The path does not point to a directory'')
       else Inr this)"

text \<open>
  The loop of \<open>Handle\<close> that appends to the root the components of the URI from index
  \<^verbatim>\<open>baseUri_.size()\<close> on.
\<close>

function Handle_loop :: "path \<Rightarrow> UriComponents \<Rightarrow> nat \<Rightarrow> path" where
  "Handle_loop p uri i = (if i < length uri then Handle_loop (p @ [uri ! i]) uri (Suc i) else p)"
  by pat_completeness auto
termination
  by (relation "measure (\<lambda>(p, uri, i). length uri - i)") auto

definition Handle ::
  "(UriComponents \<Rightarrow> string) \<Rightarrow> filesystem \<Rightarrow> FilesystemHttpHandler \<Rightarrow>
   string \<Rightarrow> UriComponents \<Rightarrow> Arguments \<Rightarrow> Arguments \<Rightarrow> string \<Rightarrow> HttpOutput_call list" where
  "Handle FlattenUri fs this method uri headers arguments body =
     (if method \<noteq> ''GET'' then [SendMethodNotAllowedError ''GET'']
      else
        let p = Handle_loop (pimpl_root this) uri (length (pimpl_baseUri this)) in
        if fs_exists fs p \<and> fs_is_regular_file fs p then [AnswerFileAutodetectContentType p]
        else if listDirectoryContent this \<and> fs_exists fs p \<and> fs_is_directory fs p
        then OutputDirectoryContent FlattenUri fs uri p
        else [SendHeader Orthanc_HttpStatus_404_NotFound])"

section \<open>Properties of the store and of the container\<close>

lemma and_then_Inr [simp]: "and_then (Inr a) f = f a"
  by (simp add: and_then_def)

lemma and_then_Inl [simp]: "and_then (Inl e) f = Inl e"
  by (simp add: and_then_def)

lemma heap_get_new: "heap_get (h @ [Some v]) p = (if p = length h then Some v else heap_get h p)"
  by (auto simp: heap_get_def nth_append)

lemma heap_get_fresh: "heap_get h (length h) = None"
  by (simp add: heap_get_def)

lemma heap_get_free: "heap_get (h[q := None]) p = (if p = q then None else heap_get h p)"
  by (auto simp: heap_get_def)

lemma cpp_delete_live: "heap_get h p = Some v \<Longrightarrow> cpp_delete h p = Inr (h[p := None])"
  by (simp add: cpp_delete_def)

lemma DicomValue_Clone_live:
  "heap_get h p = Some v \<Longrightarrow> DicomValue_Clone h p = Inr (length h, h @ [Some v])"
  by (simp add: DicomValue_Clone_def cpp_new_def)

lemma map_find_None: "map_find m tag = None \<longleftrightarrow> tag \<notin> keys m"
  by (induction m) (auto simp: map_find_def keys_def)

lemma map_find_Some: "map_find m tag = Some e \<Longrightarrow> e \<in> set m \<and> fst e = tag"
  by (induction m) (auto simp: map_find_def split: if_splits)

lemma map_find_distinct:
  "distinct (map fst m) \<Longrightarrow> (tag, p) \<in> set m \<Longrightarrow> map_find m tag = Some (tag, p)"
  by (induction m) (auto simp: map_find_def rev_image_eqI)

lemma lookup_None: "lookup m tag = None \<longleftrightarrow> tag \<notin> keys m"
  by (simp add: lookup_def map_find_None)

lemma lookup_Some: "lookup m tag = Some p \<Longrightarrow> (tag, p) \<in> set m"
  using map_find_Some by (fastforce simp: lookup_def)

lemma lookup_ptrs: "lookup m tag = Some p \<Longrightarrow> p \<in> ptrs m"
  by (force dest: lookup_Some simp: ptrs_def)

lemma lookup_distinct:
  "distinct (map fst m) \<Longrightarrow> (tag, p) \<in> set m \<Longrightarrow> lookup m tag = Some p"
  by (simp add: lookup_def map_find_distinct)

lemma set_map_insert:
  "tag \<notin> keys m \<Longrightarrow> set (map_insert tag p m) = insert (tag, p) (set m)"
  by (induction m) (auto simp: keys_def)

lemma keys_map_insert: "tag \<notin> keys m \<Longrightarrow> keys (map_insert tag p m) = insert tag (keys m)"
  by (simp add: keys_def set_map_insert)

lemma distinct_fst_map_insert:
  "tag \<notin> keys m \<Longrightarrow> distinct (map fst m) \<Longrightarrow> distinct (map fst (map_insert tag p m))"
proof (induction m)
  case Nil
  then show ?case by simp
next
  case (Cons e m)
  then have "tag \<notin> keys m" and "fst e \<noteq> tag"
    by (auto simp: keys_def)
  with Cons show ?case
    using set_map_insert [of tag m p] by (auto simp: keys_def)
qed

lemma distinct_snd_map_insert:
  "tag \<notin> keys m \<Longrightarrow> p \<notin> ptrs m \<Longrightarrow> distinct (map snd m) \<Longrightarrow>
   distinct (map snd (map_insert tag p m))"
proof (induction m)
  case Nil
  then show ?case by simp
next
  case (Cons e m)
  then have "tag \<notin> keys m" and "fst e \<noteq> tag" and "p \<notin> ptrs m" and "snd e \<noteq> p"
    by (auto simp: keys_def ptrs_def)
  with Cons show ?case
    using set_map_insert [of tag m p] by (auto simp: ptrs_def)
qed

lemma lookup_map_insert:
  "tag \<notin> keys m \<Longrightarrow> lookup (map_insert tag p m) t = (if t = tag then Some p else lookup m t)"
  by (induction m) (auto simp: lookup_def map_find_def keys_def)

lemma map_fst_map_assign: "map fst (map_assign tag p m) = map fst m"
  by (induction m) auto

lemma lookup_map_assign:
  "tag \<in> keys m \<Longrightarrow> lookup (map_assign tag p m) t = (if t = tag then Some p else lookup m t)"
  by (induction m) (auto simp: lookup_def map_find_def keys_def rev_image_eqI)

lemma set_map_assign:
  "distinct (map fst m) \<Longrightarrow> (tag, q) \<in> set m \<Longrightarrow>
   set (map_assign tag p m) = insert (tag, p) (set m - {(tag, q)})"
  by (induction m) (auto simp: rev_image_eqI)

lemma set_map_erase:
  "distinct (map fst m) \<Longrightarrow> (tag, q) \<in> set m \<Longrightarrow> set (map_erase tag m) = set m - {(tag, q)}"
  by (induction m) (auto simp: rev_image_eqI)

lemma set_map_erase_subset: "set (map_erase tag m) \<subseteq> set m"
  by (induction m) auto

lemma distinct_fst_map_erase: "distinct (map fst m) \<Longrightarrow> distinct (map fst (map_erase tag m))"
  using set_map_erase_subset [of tag] by (induction m) auto

lemma distinct_snd_map_erase: "distinct (map snd m) \<Longrightarrow> distinct (map snd (map_erase tag m))"
  using set_map_erase_subset [of tag] by (induction m) auto

lemma lookup_map_erase:
  "distinct (map fst m) \<Longrightarrow> lookup (map_erase tag m) t = (if t = tag then None else lookup m t)"
  by (induction m) (auto simp: lookup_def map_find_def rev_image_eqI find_None_iff)

lemma ptrs_map_assign_subset: "ptrs (map_assign tag p m) \<subseteq> insert p (ptrs m)"
  by (induction m) (auto simp: ptrs_def)

lemma distinct_snd_map_assign:
  "distinct (map snd m) \<Longrightarrow> p \<notin> ptrs m \<Longrightarrow> distinct (map snd (map_assign tag p m))"
proof (induction m)
  case Nil
  then show ?case by simp
next
  case (Cons e m)
  then have "snd e \<notin> ptrs (map_assign tag p m)"
    using ptrs_map_assign_subset [of tag p m] by (auto simp: ptrs_def)
  with Cons show ?case
    by (auto simp: ptrs_def)
qed

lemma owns_iff:
  "owns h m \<longleftrightarrow>
     distinct (map fst m) \<and> distinct (map snd m) \<and> (\<forall>p \<in> ptrs m. heap_get h p \<noteq> None)"
  by (auto simp: owns_def ptrs_def list_all_iff)

lemma owns_Nil: "owns h []"
  by (simp add: owns_def)

lemma owns_frame:
  "owns h m \<Longrightarrow> (\<forall>p \<in> ptrs m. heap_get h' p = heap_get h p) \<Longrightarrow> owns h' m"
  by (simp add: owns_iff)

lemma owns_below: "owns h m \<Longrightarrow> p \<in> ptrs m \<Longrightarrow> p < length h"
  by (auto simp: owns_iff heap_get_def split: if_splits)

lemma HasTag_keys: "HasTag m tag \<longleftrightarrow> tag \<in> keys m"
  by (simp add: HasTag_def map_find_None)

lemma GetValue_lookup:
  "GetValue m tag =
     (case lookup m tag of None \<Rightarrow> Inl (OrthancException ''Inexistent tag'') | Some p \<Rightarrow> Inr p)"
  by (simp add: GetValue_def lookup_def split: option.splits)

lemma content_lookup:
  "content h m tag = (case lookup m tag of None \<Rightarrow> None | Some p \<Rightarrow> heap_get h p)"
  by (simp add: content_def GetValue_lookup split: option.splits)

lemma content_frame:
  "(\<forall>p \<in> ptrs m. heap_get h' p = heap_get h p) \<Longrightarrow> content h' m tag = content h m tag"
  by (auto simp: content_lookup dest: lookup_ptrs split: option.splits)

lemma content_None: "tag \<notin> keys m \<Longrightarrow> content h m tag = None"
  by (simp add: content_lookup lookup_None [THEN iffD2])

lemma owns_content: "owns h m \<Longrightarrow> tag \<in> keys m \<Longrightarrow> content h m tag \<noteq> None"
  by (auto simp: content_lookup owns_iff lookup_None dest: lookup_ptrs split: option.splits)

lemma lookup_keys: "tag \<in> keys m \<Longrightarrow> \<exists>p. lookup m tag = Some p"
  using lookup_None [of m tag] by auto

lemma ptrs_map_insert: "tag \<notin> keys m \<Longrightarrow> ptrs (map_insert tag p m) = insert p (ptrs m)"
  by (simp add: ptrs_def set_map_insert)

lemma SetValue_absent:
  "tag \<notin> keys m \<Longrightarrow> SetValue h m tag p = Inr (h, map_insert tag p m)"
  by (simp add: SetValue_def SetValue_group_element_def map_find_None [THEN iffD2])

lemma SetValue_present:
  assumes "lookup m tag = Some q" and "heap_get h q \<noteq> None"
  shows "SetValue h m tag p = Inr (h[q := None], map_assign tag p m)"
proof -
  from assms(1) obtain it where "map_find m tag = Some it" and "snd it = q"
    by (auto simp: lookup_def)
  with assms(2) show ?thesis
    by (auto simp: SetValue_def SetValue_group_element_def cpp_delete_live)
qed

lemma ptrs_map_assign:
  assumes "distinct (map fst m)" and "distinct (map snd m)" and "lookup m tag = Some q"
  shows "ptrs (map_assign tag p m) = insert p (ptrs m - {q})"
proof -
  have in_m: "(tag, q) \<in> set m"
    using assms(3) by (rule lookup_Some)
  have "snd ` (set m - {(tag, q)}) = snd ` set m - {q}"
  proof -
    have "\<And>e. e \<in> set m \<Longrightarrow> snd e = q \<Longrightarrow> e = (tag, q)"
      using assms(2) in_m by (metis distinct_map inj_onD snd_conv)
    then show ?thesis by force
  qed
  then show ?thesis
    using set_map_assign [OF assms(1) in_m, of p] by (simp add: ptrs_def)
qed

lemma ptrs_map_erase:
  assumes "distinct (map fst m)" and "distinct (map snd m)" and "lookup m tag = Some q"
  shows "ptrs (map_erase tag m) = ptrs m - {q}"
proof -
  have in_m: "(tag, q) \<in> set m"
    using assms(3) by (rule lookup_Some)
  have "snd ` (set m - {(tag, q)}) = snd ` set m - {q}"
  proof -
    have "\<And>e. e \<in> set m \<Longrightarrow> snd e = q \<Longrightarrow> e = (tag, q)"
      using assms(2) in_m by (metis distinct_map inj_onD snd_conv)
    then show ?thesis by force
  qed
  then show ?thesis
    using set_map_erase [OF assms(1) in_m] by (simp add: ptrs_def)
qed

lemma keys_map_assign: "keys (map_assign tag p m) = keys m"
  unfolding keys_def map_fst_map_assign ..

text \<open>What one call of SetValue does to a map that owns its values, given a pointer to a
  live value that the map does not hold yet.\<close>

lemma SetValue_effect:
  assumes own: "owns h m" and live: "heap_get h p = Some v" and new: "p \<notin> ptrs m"
  shows "\<exists>h' m'. SetValue h m tag p = Inr (h', m') \<and> owns h' m' \<and>
           keys m' = insert tag (keys m) \<and>
           lookup m' tag = Some p \<and> (\<forall>t. t \<noteq> tag \<longrightarrow> lookup m' t = lookup m t) \<and>
           ptrs m' = insert p (ptrs m - (case lookup m tag of None \<Rightarrow> {} | Some q \<Rightarrow> {q})) \<and>
           h' = (case lookup m tag of None \<Rightarrow> h | Some q \<Rightarrow> h[q := None])"
proof (cases "lookup m tag")
  case None
  then have absent: "tag \<notin> keys m"
    by (simp add: lookup_None)
  have "owns h (map_insert tag p m)"
    using own live new absent
    by (simp add: owns_iff distinct_fst_map_insert distinct_snd_map_insert ptrs_map_insert)
  then show ?thesis
    using None absent
    by (simp add: SetValue_absent keys_map_insert lookup_map_insert ptrs_map_insert)
next
  case (Some q)
  then have present: "tag \<in> keys m"
    using lookup_None [of m tag] by auto
  have q: "q \<in> ptrs m"
    using Some by (rule lookup_ptrs)
  then have liveq: "heap_get h q \<noteq> None"
    using own by (simp add: owns_iff)
  have dist: "distinct (map fst m)" "distinct (map snd m)"
    using own by (simp_all add: owns_iff)
  have ptrs': "ptrs (map_assign tag p m) = insert p (ptrs m - {q})"
    using dist Some by (rule ptrs_map_assign)
  have "p \<noteq> q"
    using q new by auto
  then have "owns (h[q := None]) (map_assign tag p m)"
    using own live new
    by (auto simp: owns_iff ptrs' map_fst_map_assign distinct_snd_map_assign heap_get_free)
  then show ?thesis
    using Some present liveq ptrs'
    by (simp add: SetValue_present lookup_map_assign keys_map_assign insert_absorb)
qed

lemma Clear_loop_effect:
  "owns h m \<Longrightarrow>
   \<exists>h'. Clear_loop h m = Inr h' \<and> length h' = length h \<and>
        (\<forall>a. heap_get h' a = (if a \<in> ptrs m then None else heap_get h a))"
proof (induction m arbitrary: h)
  case Nil
  then show ?case by (simp add: ptrs_def)
next
  case (Cons e m)
  from Cons.prems obtain v where live: "heap_get h (snd e) = Some v"
    by (auto simp: owns_iff ptrs_def)
  from Cons.prems have notin: "snd e \<notin> ptrs m"
    by (simp add: owns_iff ptrs_def)
  from Cons.prems have "owns h m"
    by (simp add: owns_iff ptrs_def)
  then have "owns (h[snd e := None]) m"
    using notin by (auto intro: owns_frame simp: heap_get_free)
  from Cons.IH [OF this] obtain h' where
    h': "Clear_loop (h[snd e := None]) m = Inr h'" "length h' = length h"
      "\<And>a. heap_get h' a = (if a \<in> ptrs m then None else heap_get (h[snd e := None]) a)"
    by auto
  have "Clear_loop h (e # m) = Inr h'"
    using live h'(1) by (simp add: cpp_delete_live)
  moreover have "\<forall>a. heap_get h' a = (if a \<in> ptrs (e # m) then None else heap_get h a)"
    using h'(3) by (auto simp: heap_get_free ptrs_def)
  ultimately show ?case
    using h'(2) by simp
qed

lemma Clear_effect:
  "owns h m \<Longrightarrow>
   \<exists>h'. Clear h m = Inr (h', []) \<and> length h' = length h \<and>
        (\<forall>a. heap_get h' a = (if a \<in> ptrs m then None else heap_get h a))"
  using Clear_loop_effect [of h m] by (auto simp: Clear_def)

lemma Remove_absent: "tag \<notin> keys m \<Longrightarrow> Remove h m tag = Inr (h, m)"
  by (simp add: Remove_def map_find_None [THEN iffD2])

section \<open>GetValue, Clear and Remove\<close>

text \<open>
  C5. \<open>GetValue\<close> fails, with the exception \<open>Inexistent tag\<close>, exactly when the tag is
  absent from the map, that is when \<open>HasTag\<close> is false. When the tag is present it returns
  the pointer stored for the tag, a view of the value the map owns: under the class
  invariant that value is live, and it is the content read for the tag. \<open>GetValue\<close> is a
  \<^verbatim>\<open>const\<close> member that only reads \<^verbatim>\<open>map_\<close>: its model takes the map and returns the
  reference or the error, and no new map or store, in both cases.
\<close>

theorem GetValue_TagNotFound:
  "(GetValue m tag = Inl (OrthancException ''Inexistent tag'') \<longleftrightarrow> \<not> HasTag m tag) \<and>
   ((\<exists>e. GetValue m tag = Inl e) \<longleftrightarrow> \<not> HasTag m tag) \<and>
   (HasTag m tag \<longleftrightarrow> tag \<in> keys m) \<and>
   (HasTag m tag \<longrightarrow>
      (\<exists>it. map_find m tag = Some it \<and> fst it = tag \<and> GetValue m tag = Inr (snd it) \<and>
            (owns h m \<longrightarrow> heap_get h (snd it) \<noteq> None \<and>
                          content h m tag = heap_get h (snd it))))"
proof (cases "map_find m tag")
  case None
  then show ?thesis
    using HasTag_keys [of m tag] by (simp add: GetValue_def HasTag_def)
next
  case (Some it)
  then have "it \<in> set m" and "fst it = tag"
    using map_find_Some by auto
  then have "owns h m \<longrightarrow> heap_get h (snd it) \<noteq> None"
    by (auto simp: owns_iff ptrs_def)
  then show ?thesis
    using Some \<open>fst it = tag\<close> HasTag_keys [of m tag]
    by (simp add: GetValue_def HasTag_def content_def)
qed

theorem GetValue_TagNotFound_witness:
  "HasTag [(DicomTag 0x0008 0x0060, 0)] (DicomTag 0x0008 0x0060) \<and>
   \<not> HasTag [(DicomTag 0x0008 0x0060, 0)] (DicomTag 0x0010 0x0020) \<and>
   owns [Some (DicomString ''CT'')] [(DicomTag 0x0008 0x0060, 0)] \<and>
   GetValue [(DicomTag 0x0008 0x0060, 0)] (DicomTag 0x0008 0x0060) = Inr 0 \<and>
   content [Some (DicomString ''CT'')] [(DicomTag 0x0008 0x0060, 0)] (DicomTag 0x0008 0x0060)
     = Some (DicomString ''CT'') \<and>
   GetValue [(DicomTag 0x0008 0x0060, 0)] (DicomTag 0x0010 0x0020)
     = Inl (OrthancException ''Inexistent tag'')"
proof -
  let ?h = "[Some (DicomString ''CT'')]"
  let ?m = "[(DicomTag 0x0008 0x0060, 0 :: nat)]"
  have own: "owns ?h ?m"
    by (simp add: owns_def heap_get_def)
  have has: "HasTag ?m (DicomTag 0x0008 0x0060)" "\<not> HasTag ?m (DicomTag 0x0010 0x0020)"
    by (simp_all add: HasTag_def map_find_def)
  show ?thesis
    using GetValue_TagNotFound [of ?m "DicomTag 0x0008 0x0060" ?h]
      GetValue_TagNotFound [of ?m "DicomTag 0x0010 0x0020" ?h] own has
    by (simp add: map_find_def heap_get_def)
qed

text \<open>
  C7. \<open>Clear\<close> on a map that owns its values succeeds and leaves the map empty, with
  every value it held destroyed; a second \<open>Clear\<close> right after succeeds too and leaves the
  map empty and the store as it is. \<open>Remove\<close> of a tag that is absent from the map
  succeeds and changes neither the map nor the store.
\<close>

theorem Clear_idempotent_Remove_absent:
  "(owns h m \<longrightarrow>
      (\<exists>h1. Clear h m = Inr (h1, []) \<and> Clear h1 [] = Inr (h1, []) \<and>
            (\<forall>tag. \<not> HasTag [] tag) \<and> (\<forall>p \<in> ptrs m. heap_get h1 p = None))) \<and>
   (\<not> HasTag m tag \<longrightarrow> Remove h m tag = Inr (h, m))"
proof (intro conjI impI)
  assume "owns h m"
  then obtain h1 where "Clear h m = Inr (h1, [])"
    and "\<forall>a. heap_get h1 a = (if a \<in> ptrs m then None else heap_get h a)"
    using Clear_effect by blast
  moreover have "Clear h1 [] = Inr (h1, [])"
    by (simp add: Clear_def)
  moreover have "\<forall>tag. \<not> HasTag [] tag"
    by (simp add: HasTag_def map_find_def)
  ultimately show "\<exists>h1. Clear h m = Inr (h1, []) \<and> Clear h1 [] = Inr (h1, []) \<and>
      (\<forall>tag. \<not> HasTag [] tag) \<and> (\<forall>p \<in> ptrs m. heap_get h1 p = None)"
    by auto
next
  assume "\<not> HasTag m tag"
  then show "Remove h m tag = Inr (h, m)"
    by (simp add: HasTag_keys Remove_absent)
qed

theorem Clear_idempotent_Remove_absent_witness:
  "owns [Some (DicomString ''P1''), Some (DicomString ''CT'')]
        [(DicomTag 0x0008 0x0060, 1), (DicomTag 0x0010 0x0020, 0)] \<and>
   \<not> HasTag [(DicomTag 0x0008 0x0060, 1), (DicomTag 0x0010 0x0020, 0)] (DicomTag 0x0020 0x000d) \<and>
   Clear [Some (DicomString ''P1''), Some (DicomString ''CT'')]
        [(DicomTag 0x0008 0x0060, 1), (DicomTag 0x0010 0x0020, 0)] = Inr ([None, None], []) \<and>
   Clear [None, None] [] = Inr ([None :: DicomValue option, None], []) \<and>
   Remove [Some (DicomString ''P1''), Some (DicomString ''CT'')]
        [(DicomTag 0x0008 0x0060, 1), (DicomTag 0x0010 0x0020, 0)] (DicomTag 0x0020 0x000d)
     = Inr ([Some (DicomString ''P1''), Some (DicomString ''CT'')],
            [(DicomTag 0x0008 0x0060, 1), (DicomTag 0x0010 0x0020, 0)])"
proof -
  let ?h = "[Some (DicomString ''P1''), Some (DicomString ''CT'')]"
  let ?m = "[(DicomTag 0x0008 0x0060, 1), (DicomTag 0x0010 0x0020, 0)]"
  have own: "owns ?h ?m"
    by (simp add: owns_def heap_get_def)
  have absent: "\<not> HasTag ?m (DicomTag 0x0020 0x000d)"
    by (simp add: HasTag_def map_find_def)
  have clear: "Clear ?h ?m = Inr ([None, None], [])"
    by (simp add: Clear_def cpp_delete_def heap_get_def)
  show ?thesis
    using Clear_idempotent_Remove_absent [of ?h ?m "DicomTag 0x0020 0x000d"] own absent clear
    by simp
qed

section \<open>SetValue\<close>

lemma lookup_inj:
  assumes "distinct (map snd m)" and "lookup m t = Some a" and "lookup m t' = Some a"
  shows "t = t'"
proof -
  have "(t, a) \<in> set m" and "(t', a) \<in> set m"
    using assms(2,3) by (auto dest: lookup_Some)
  then show ?thesis
    using assms(1) by (metis distinct_map inj_onD snd_conv fst_conv)
qed

lemma ptrs_lookup: "p \<in> ptrs m \<Longrightarrow> distinct (map fst m) \<Longrightarrow> \<exists>t. lookup m t = Some p"
  using lookup_distinct by (fastforce simp: ptrs_def)

lemma SetValue_summary:
  assumes own: "owns h m" and live: "heap_get h p = Some v" and new: "p \<notin> ptrs m"
  shows "\<exists>h' m'. SetValue h m tag p = Inr (h', m') \<and> owns h' m' \<and>
           keys m' = insert tag (keys m) \<and> ptrs m' \<subseteq> insert p (ptrs m) \<and>
           length h' = length h \<and>
           (\<forall>t. content h' m' t = (if t = tag then Some v else content h m t)) \<and>
           (\<forall>a. a \<notin> ptrs m \<longrightarrow> heap_get h' a = heap_get h a) \<and>
           (\<forall>a. heap_get h a = None \<longrightarrow> heap_get h' a = None) \<and>
           (\<forall>a \<in> ptrs m. a \<notin> ptrs m' \<longrightarrow> heap_get h' a = None)"
proof -
  from SetValue_effect [OF assms, of tag] obtain h' m' where
    res: "SetValue h m tag p = Inr (h', m')" and own': "owns h' m'"
    and k: "keys m' = insert tag (keys m)"
    and l1: "lookup m' tag = Some p" and l2: "\<And>t. t \<noteq> tag \<Longrightarrow> lookup m' t = lookup m t"
    and pt: "ptrs m' = insert p (ptrs m - (case lookup m tag of None \<Rightarrow> {} | Some q \<Rightarrow> {q}))"
    and h': "h' = (case lookup m tag of None \<Rightarrow> h | Some q \<Rightarrow> h[q := None])"
    by blast
  have dist: "distinct (map snd m)"
    using own by (simp add: owns_iff)
  have hp: "heap_get h' p = Some v"
    using h' live new by (auto simp: heap_get_free dest: lookup_ptrs split: option.splits)
  have other: "content h' m' t = content h m t" if "t \<noteq> tag" for t
  proof (cases "lookup m t")
    case None
    then show ?thesis using l2 [OF that] by (simp add: content_lookup)
  next
    case (Some a)
    have "heap_get h' a = heap_get h a"
    proof (cases "lookup m tag")
      case None
      then show ?thesis using h' by simp
    next
      case (Some q)
      then have "a \<noteq> q"
        using lookup_inj [OF dist \<open>lookup m t = Some a\<close>, of tag] that by auto
      then show ?thesis using h' Some by (simp add: heap_get_free)
    qed
    then show ?thesis using Some l2 [OF that] by (simp add: content_lookup)
  qed
  have c: "\<forall>t. content h' m' t = (if t = tag then Some v else content h m t)"
    using other l1 hp by (simp add: content_lookup)
  have f: "\<forall>a. a \<notin> ptrs m \<longrightarrow> heap_get h' a = heap_get h a"
    using h' by (auto simp: heap_get_free dest: lookup_ptrs split: option.splits)
  have d: "\<forall>a. heap_get h a = None \<longrightarrow> heap_get h' a = None"
    using h' by (auto simp: heap_get_free split: option.splits)
  have g: "\<forall>a \<in> ptrs m. a \<notin> ptrs m' \<longrightarrow> heap_get h' a = None"
    using h' pt by (auto simp: heap_get_free split: option.splits)
  have len: "length h' = length h"
    using h' by (simp split: option.splits)
  have sub: "ptrs m' \<subseteq> insert p (ptrs m)"
    using pt by auto
  show ?thesis
    using res own' k sub len c f d g by blast
qed

lemma owns_new: "owns h m \<Longrightarrow> owns (h @ [x]) m"
  by (auto simp: owns_iff heap_get_def nth_append)

lemma owns_fresh: "owns h m \<Longrightarrow> length h \<notin> ptrs m"
  using owns_below by blast

lemma content_new: "owns h m \<Longrightarrow> content (h @ [x]) m t = content h m t"
  by (rule content_frame) (auto simp: heap_get_def nth_append dest: owns_below)

lemma count_entries:
  "distinct (map fst m) \<Longrightarrow> tag \<in> keys m \<Longrightarrow> length (filter (\<lambda>e. fst e = tag) m) = 1"
proof (induction m)
  case Nil
  then show ?case by (simp add: keys_def)
next
  case (Cons e m)
  show ?case
  proof (cases "fst e = tag")
    case True
    with Cons.prems have "tag \<notin> fst ` set m"
      by auto
    then have "filter (\<lambda>e. fst e = tag) m = []"
      by (auto simp: filter_empty_conv)
    with True show ?thesis by simp
  next
    case False
    with Cons show ?thesis by (simp add: keys_def)
  qed
qed

text \<open>
  C4. \<open>SetValue\<close> takes ownership of the value it is given: a pointer to a live value
  that the map does not hold yet. On a map that owns its values, \<open>SetValue\<close> of \<open>p1\<close> for a
  tag followed by \<open>SetValue\<close> of another such pointer \<open>p2\<close> for the same tag both succeed;
  afterwards \<open>GetValue\<close> for the tag returns \<open>p2\<close>, whose content is still that of the
  second value, the map has exactly one entry for the tag, and it still owns its values.
\<close>

theorem SetValue_twice:
  assumes "owns h m" and "heap_get h p1 = Some v1" and "heap_get h p2 = Some v2"
    and "p1 \<notin> ptrs m" and "p2 \<notin> ptrs m" and "p1 \<noteq> p2"
  shows "\<exists>h1 m1 h2 m2. SetValue h m tag p1 = Inr (h1, m1) \<and> SetValue h1 m1 tag p2 = Inr (h2, m2) \<and>
           HasTag m2 tag \<and> GetValue m2 tag = Inr p2 \<and> heap_get h2 p2 = Some v2 \<and>
           content h2 m2 tag = Some v2 \<and>
           length (filter (\<lambda>e. fst e = tag) m2) = 1 \<and> owns h2 m2"
proof -
  from SetValue_summary [OF assms(1,2,4), of tag] obtain h1 m1 where
    s1: "SetValue h m tag p1 = Inr (h1, m1)" and o1: "owns h1 m1"
    and pt1: "ptrs m1 \<subseteq> insert p1 (ptrs m)"
    and f1: "\<And>a. a \<notin> ptrs m \<Longrightarrow> heap_get h1 a = heap_get h a"
    by blast
  have live2: "heap_get h1 p2 = Some v2"
    using f1 [OF assms(5)] assms(3) by simp
  have new2: "p2 \<notin> ptrs m1"
    using pt1 assms(5,6) by auto
  from SetValue_effect [OF o1 live2 new2, of tag] SetValue_summary [OF o1 live2 new2, of tag]
  obtain h2 m2 where
    s2: "SetValue h1 m1 tag p2 = Inr (h2, m2)" and o2: "owns h2 m2"
    and k2: "keys m2 = insert tag (keys m1)" and l2: "lookup m2 tag = Some p2"
    and c2: "\<And>t. content h2 m2 t = (if t = tag then Some v2 else content h1 m1 t)"
    by force
  have "length (filter (\<lambda>e. fst e = tag) m2) = 1"
    using o2 k2 by (simp add: count_entries owns_iff)
  moreover have "GetValue m2 tag = Inr p2"
    using l2 by (simp add: GetValue_lookup)
  moreover have "heap_get h2 p2 = Some v2"
    using c2 [of tag] l2 by (simp add: content_lookup)
  moreover have "HasTag m2 tag"
    using k2 by (simp add: HasTag_keys)
  ultimately show ?thesis
    using s1 s2 o2 c2 by auto
qed

theorem SetValue_twice_witness:
  "owns [Some (DicomString ''MR''), Some (DicomString ''CT''), Some (DicomString ''US'')]
        [(DicomTag 0x0008 0x0060, 0)] \<and>
   SetValue [Some (DicomString ''MR''), Some (DicomString ''CT''), Some (DicomString ''US'')]
        [(DicomTag 0x0008 0x0060, 0)] (DicomTag 0x0008 0x0060) 1
     = Inr ([None, Some (DicomString ''CT''), Some (DicomString ''US'')], [(DicomTag 0x0008 0x0060, 1)]) \<and>
   SetValue [None, Some (DicomString ''CT''), Some (DicomString ''US'')]
        [(DicomTag 0x0008 0x0060, 1)] (DicomTag 0x0008 0x0060) 2
     = Inr ([None, None, Some (DicomString ''US'')], [(DicomTag 0x0008 0x0060, 2)]) \<and>
   GetValue [(DicomTag 0x0008 0x0060, 2)] (DicomTag 0x0008 0x0060) = Inr 2 \<and>
   content [None, None, Some (DicomString ''US'')] [(DicomTag 0x0008 0x0060, 2)]
       (DicomTag 0x0008 0x0060) = Some (DicomString ''US'')"
proof -
  let ?h = "[Some (DicomString ''MR''), Some (DicomString ''CT''), Some (DicomString ''US'')]"
  let ?m = "[(DicomTag 0x0008 0x0060, 0::nat)]"
  have own: "owns ?h ?m"
    by (simp add: owns_def heap_get_def)
  have live: "heap_get ?h 1 = Some (DicomString ''CT'')" "heap_get ?h 2 = Some (DicomString ''US'')"
    by (simp_all add: heap_get_def)
  have new: "1 \<notin> ptrs ?m" "2 \<notin> ptrs ?m" "(1::nat) \<noteq> 2"
    by (simp_all add: ptrs_def)
  have s1: "SetValue ?h ?m (DicomTag 0x0008 0x0060) 1
     = Inr ([None, Some (DicomString ''CT''), Some (DicomString ''US'')], [(DicomTag 0x0008 0x0060, 1)])"
    by (simp add: SetValue_def SetValue_group_element_def map_find_def cpp_delete_def heap_get_def)
  have s2: "SetValue [None, Some (DicomString ''CT''), Some (DicomString ''US'')]
        [(DicomTag 0x0008 0x0060, 1)] (DicomTag 0x0008 0x0060) 2
     = Inr ([None, None, Some (DicomString ''US'')], [(DicomTag 0x0008 0x0060, 2)])"
    by (simp add: SetValue_def SetValue_group_element_def map_find_def cpp_delete_def heap_get_def)
  show ?thesis
    using SetValue_twice [OF own live new, of "DicomTag 0x0008 0x0060"] own s1 s2
    by simp
qed

section \<open>Search templates\<close>

lemma heap_get_new_old: "heap_get h a \<noteq> None \<Longrightarrow> heap_get (h @ [x]) a = heap_get h a"
  by (auto simp: heap_get_def nth_append split: if_splits)

lemma heap_get_new_below: "a < length h \<Longrightarrow> heap_get (h @ [x]) a = heap_get h a"
  by (simp add: heap_get_def nth_append)

lemma SetValue_string_effect:
  assumes own: "owns h m"
  shows "\<exists>h' m'. SetValue_string h m tag s = Inr (h', m') \<and> owns h' m' \<and>
           keys m' = insert tag (keys m) \<and>
           (\<forall>t. content h' m' t = (if t = tag then Some (DicomString s) else content h m t)) \<and>
           length h \<le> length h' \<and>
           (\<forall>a < length h. heap_get h a = None \<longrightarrow> heap_get h' a = None) \<and>
           (\<forall>a. a \<notin> ptrs m \<longrightarrow> heap_get h a \<noteq> None \<longrightarrow> heap_get h' a = heap_get h a)"
proof -
  let ?h1 = "h @ [Some (DicomString s)]"
  have own1: "owns ?h1 m"
    using own by (rule owns_new)
  have live: "heap_get ?h1 (length h) = Some (DicomString s)"
    by (simp add: heap_get_new)
  have new: "length h \<notin> ptrs m"
    using own by (rule owns_fresh)
  from SetValue_summary [OF own1 live new, of tag] obtain h' m' where
    res: "SetValue ?h1 m tag (length h) = Inr (h', m')" and own': "owns h' m'"
    and k: "keys m' = insert tag (keys m)" and len: "length h' = length ?h1"
    and c: "\<And>t. content h' m' t = (if t = tag then Some (DicomString s) else content ?h1 m t)"
    and f: "\<And>a. a \<notin> ptrs m \<Longrightarrow> heap_get h' a = heap_get ?h1 a"
    and d: "\<And>a. heap_get ?h1 a = None \<Longrightarrow> heap_get h' a = None"
    by blast
  have "SetValue_string h m tag s = Inr (h', m')"
    using res by (simp add: SetValue_string_def cpp_new_def)
  moreover have "\<forall>t. content h' m' t = (if t = tag then Some (DicomString s) else content h m t)"
    using c content_new [OF own] by simp
  moreover have "\<forall>a < length h. heap_get h a = None \<longrightarrow> heap_get h' a = None"
    using d by (simp add: heap_get_new_below)
  moreover have "\<forall>a. a \<notin> ptrs m \<longrightarrow> heap_get h a \<noteq> None \<longrightarrow> heap_get h' a = heap_get h a"
    using f by (simp add: heap_get_new_old)
  ultimately show ?thesis
    using own' k len by auto
qed

lemma SetupFindTemplate_loop_effect:
  "owns h r \<Longrightarrow>
   \<exists>h' r'. SetupFindTemplate_loop h r tags = Inr (h', r') \<and> owns h' r' \<and>
      keys r' = keys r \<union> set tags \<and>
      (\<forall>t. content h' r' t = (if t \<in> set tags then Some (DicomString '''') else content h r t)) \<and>
      length h \<le> length h' \<and>
      (\<forall>a < length h. heap_get h a = None \<longrightarrow> heap_get h' a = None)"
proof (induction tags arbitrary: h r)
  case Nil
  then show ?case by simp
next
  case (Cons tag tags)
  from SetValue_string_effect [OF Cons.prems, of tag "''''"] obtain h1 r1 where
    s: "SetValue_string h r tag '''' = Inr (h1, r1)" and own1: "owns h1 r1"
    and k1: "keys r1 = insert tag (keys r)"
    and c1: "\<And>t. content h1 r1 t = (if t = tag then Some (DicomString '''') else content h r t)"
    and len1: "length h \<le> length h1"
    and d1: "\<And>a. a < length h \<Longrightarrow> heap_get h a = None \<Longrightarrow> heap_get h1 a = None"
    by blast
  from Cons.IH [OF own1] obtain h' r' where
    l: "SetupFindTemplate_loop h1 r1 tags = Inr (h', r')" and own': "owns h' r'"
    and k': "keys r' = keys r1 \<union> set tags"
    and c': "\<And>t. content h' r' t = (if t \<in> set tags then Some (DicomString '''') else content h1 r1 t)"
    and len': "length h1 \<le> length h'"
    and d': "\<And>a. a < length h1 \<Longrightarrow> heap_get h1 a = None \<Longrightarrow> heap_get h' a = None"
    by blast
  have "SetupFindTemplate_loop h r (tag # tags) = Inr (h', r')"
    using s l by simp
  moreover have "keys r' = keys r \<union> set (tag # tags)"
    using k1 k' by auto
  moreover have "\<forall>t. content h' r' t =
      (if t \<in> set (tag # tags) then Some (DicomString '''') else content h r t)"
    using c1 c' by simp
  moreover have "\<forall>a < length h. heap_get h a = None \<longrightarrow> heap_get h' a = None"
    using d1 d' len1 by (meson less_le_trans)
  moreover have "length h \<le> length h'"
    using len1 len' by simp
  ultimately show ?case
    using own' by blast
qed

lemma SetupFindTemplate_effect:
  assumes "owns h r"
  shows "\<exists>h' r'. SetupFindTemplate h r tags = Inr (h', r') \<and> owns h' r' \<and>
      keys r' = set tags \<and>
      (\<forall>t. content h' r' t = (if t \<in> set tags then Some (DicomString '''') else None)) \<and>
      (\<forall>a \<in> ptrs r. heap_get h' a = None)"
proof -
  from Clear_effect [OF assms] obtain h1 where
    cl: "Clear h r = Inr (h1, [])" and len1: "length h1 = length h"
    and g1: "\<And>a. heap_get h1 a = (if a \<in> ptrs r then None else heap_get h a)"
    by blast
  from SetupFindTemplate_loop_effect [OF owns_Nil, of h1 tags] obtain h' r' where
    l: "SetupFindTemplate_loop h1 [] tags = Inr (h', r')" and own': "owns h' r'"
    and k': "keys r' = keys [] \<union> set tags"
    and c': "\<And>t. content h' r' t = (if t \<in> set tags then Some (DicomString '''') else content h1 [] t)"
    and d': "\<And>a. a < length h1 \<Longrightarrow> heap_get h1 a = None \<Longrightarrow> heap_get h' a = None"
    by blast
  have "SetupFindTemplate h r tags = Inr (h', r')"
    using cl l by (simp add: SetupFindTemplate_def)
  moreover have "keys r' = set tags"
    using k' by (simp add: keys_def)
  moreover have "\<forall>t. content h' r' t = (if t \<in> set tags then Some (DicomString '''') else None)"
    using c' by (simp add: content_None keys_def)
  moreover have "\<forall>a \<in> ptrs r. heap_get h' a = None"
    using d' g1 len1 owns_below [OF assms] by simp
  ultimately show ?thesis
    using own' by blast
qed

text \<open>One more empty-string value on a template stays a template.\<close>

lemma template_step:
  assumes "owns h r" and "\<forall>t. content h r t = (if t \<in> K then Some (DicomString '''') else None)"
    and "keys r = K"
  shows "\<exists>h' r'. SetValue_string h r tag '''' = Inr (h', r') \<and> owns h' r' \<and>
      keys r' = insert tag K \<and>
      (\<forall>t. content h' r' t = (if t \<in> insert tag K then Some (DicomString '''') else None))"
  using SetValue_string_effect [OF assms(1), of tag "''''"] assms(2,3) by auto

text \<open>
  C3. On any target map that owns its values, \<open>SetupFindSeriesTemplate\<close> succeeds and
  leaves a map whose keys are exactly the tags of the Series registry together with
  \<open>ACCESSION_NUMBER\<close>, \<open>PATIENT_ID\<close> and \<open>STUDY_UID\<close>, with one entry per tag and every
  key mapped to an empty-string value. \<open>SetupFindInstanceTemplate\<close> does the same with
  the Instance registry and the four keys \<open>ACCESSION_NUMBER\<close>, \<open>PATIENT_ID\<close>,
  \<open>STUDY_UID\<close> and \<open>SERIES_UID\<close>.
\<close>

theorem SetupFind_Series_Instance_templates:
  assumes "owns h result"
  shows "(\<exists>h' r. SetupFindSeriesTemplate h result = Inr (h', r) \<and>
            keys r = set seriesTags \<union> {ACCESSION_NUMBER, PATIENT_ID, STUDY_UID} \<and>
            distinct (map fst r) \<and>
            (\<forall>t \<in> keys r. content h' r t = Some (DicomString ''''))) \<and>
         (\<exists>h' r. SetupFindInstanceTemplate h result = Inr (h', r) \<and>
            keys r = set instanceTags \<union> {ACCESSION_NUMBER, PATIENT_ID, STUDY_UID, SERIES_UID} \<and>
            distinct (map fst r) \<and>
            (\<forall>t \<in> keys r. content h' r t = Some (DicomString '''')))"
proof
  from SetupFindTemplate_effect [OF assms, of seriesTags] obtain h1 r1 where
    t1: "SetupFindTemplate h result seriesTags = Inr (h1, r1)" "owns h1 r1"
      "\<forall>t. content h1 r1 t = (if t \<in> set seriesTags then Some (DicomString '''') else None)"
      "keys r1 = set seriesTags"
    by blast
  from template_step [OF t1(2-4), of ACCESSION_NUMBER] obtain h2 r2 where
    t2: "SetValue_string h1 r1 ACCESSION_NUMBER '''' = Inr (h2, r2)" "owns h2 r2"
      "\<forall>t. content h2 r2 t =
         (if t \<in> insert ACCESSION_NUMBER (set seriesTags) then Some (DicomString '''') else None)"
      "keys r2 = insert ACCESSION_NUMBER (set seriesTags)"
    by blast
  from template_step [OF t2(2-4), of PATIENT_ID] obtain h3 r3 where
    t3: "SetValue_string h2 r2 PATIENT_ID '''' = Inr (h3, r3)" "owns h3 r3"
      "\<forall>t. content h3 r3 t =
         (if t \<in> insert PATIENT_ID (insert ACCESSION_NUMBER (set seriesTags))
          then Some (DicomString '''') else None)"
      "keys r3 = insert PATIENT_ID (insert ACCESSION_NUMBER (set seriesTags))"
    by blast
  from template_step [OF t3(2-4), of STUDY_UID] obtain h4 r4 where
    t4: "SetValue_string h3 r3 STUDY_UID '''' = Inr (h4, r4)" "owns h4 r4"
      "\<forall>t. content h4 r4 t =
         (if t \<in> insert STUDY_UID (insert PATIENT_ID (insert ACCESSION_NUMBER (set seriesTags)))
          then Some (DicomString '''') else None)"
      "keys r4 = insert STUDY_UID (insert PATIENT_ID (insert ACCESSION_NUMBER (set seriesTags)))"
    by blast
  have "SetupFindSeriesTemplate h result = Inr (h4, r4)"
    using t1(1) t2(1) t3(1) t4(1) by (simp add: SetupFindSeriesTemplate_def)
  moreover have "keys r4 = set seriesTags \<union> {ACCESSION_NUMBER, PATIENT_ID, STUDY_UID}"
    using t4(4) by blast
  moreover have "distinct (map fst r4)"
    using t4(2) by (simp add: owns_iff)
  moreover have "\<forall>t \<in> keys r4. content h4 r4 t = Some (DicomString '''')"
    using t4(3,4) by simp
  ultimately show "\<exists>h' r. SetupFindSeriesTemplate h result = Inr (h', r) \<and>
            keys r = set seriesTags \<union> {ACCESSION_NUMBER, PATIENT_ID, STUDY_UID} \<and>
            distinct (map fst r) \<and>
            (\<forall>t \<in> keys r. content h' r t = Some (DicomString ''''))"
    by blast
next
  from SetupFindTemplate_effect [OF assms, of instanceTags] obtain h1 r1 where
    t1: "SetupFindTemplate h result instanceTags = Inr (h1, r1)" "owns h1 r1"
      "\<forall>t. content h1 r1 t = (if t \<in> set instanceTags then Some (DicomString '''') else None)"
      "keys r1 = set instanceTags"
    by blast
  from template_step [OF t1(2-4), of ACCESSION_NUMBER] obtain h2 r2 where
    t2: "SetValue_string h1 r1 ACCESSION_NUMBER '''' = Inr (h2, r2)" "owns h2 r2"
      "\<forall>t. content h2 r2 t =
         (if t \<in> insert ACCESSION_NUMBER (set instanceTags) then Some (DicomString '''') else None)"
      "keys r2 = insert ACCESSION_NUMBER (set instanceTags)"
    by blast
  from template_step [OF t2(2-4), of PATIENT_ID] obtain h3 r3 where
    t3: "SetValue_string h2 r2 PATIENT_ID '''' = Inr (h3, r3)" "owns h3 r3"
      "\<forall>t. content h3 r3 t =
         (if t \<in> insert PATIENT_ID (insert ACCESSION_NUMBER (set instanceTags))
          then Some (DicomString '''') else None)"
      "keys r3 = insert PATIENT_ID (insert ACCESSION_NUMBER (set instanceTags))"
    by blast
  from template_step [OF t3(2-4), of STUDY_UID] obtain h4 r4 where
    t4: "SetValue_string h3 r3 STUDY_UID '''' = Inr (h4, r4)" "owns h4 r4"
      "\<forall>t. content h4 r4 t =
         (if t \<in> insert STUDY_UID (insert PATIENT_ID (insert ACCESSION_NUMBER (set instanceTags)))
          then Some (DicomString '''') else None)"
      "keys r4 = insert STUDY_UID (insert PATIENT_ID (insert ACCESSION_NUMBER (set instanceTags)))"
    by blast
  from template_step [OF t4(2-4), of SERIES_UID] obtain h5 r5 where
    t5: "SetValue_string h4 r4 SERIES_UID '''' = Inr (h5, r5)" "owns h5 r5"
      "\<forall>t. content h5 r5 t =
         (if t \<in> insert SERIES_UID (insert STUDY_UID (insert PATIENT_ID
                  (insert ACCESSION_NUMBER (set instanceTags))))
          then Some (DicomString '''') else None)"
      "keys r5 = insert SERIES_UID (insert STUDY_UID (insert PATIENT_ID
                  (insert ACCESSION_NUMBER (set instanceTags))))"
    by blast
  have "SetupFindInstanceTemplate h result = Inr (h5, r5)"
    using t1(1) t2(1) t3(1) t4(1) t5(1) by (simp add: SetupFindInstanceTemplate_def)
  moreover have
    "keys r5 = set instanceTags \<union> {ACCESSION_NUMBER, PATIENT_ID, STUDY_UID, SERIES_UID}"
    using t5(4) by blast
  moreover have "distinct (map fst r5)"
    using t5(2) by (simp add: owns_iff)
  moreover have "\<forall>t \<in> keys r5. content h5 r5 t = Some (DicomString '''')"
    using t5(3,4) by simp
  ultimately show "\<exists>h' r. SetupFindInstanceTemplate h result = Inr (h', r) \<and>
            keys r = set instanceTags \<union> {ACCESSION_NUMBER, PATIENT_ID, STUDY_UID, SERIES_UID} \<and>
            distinct (map fst r) \<and>
            (\<forall>t \<in> keys r. content h' r t = Some (DicomString ''''))"
    by blast
qed

text \<open>The definitions that a run on a concrete store and map unfolds.\<close>

lemmas run_defs =
  SetValue_def SetValue_group_element_def SetValue_string_def Clear_def ExtractTags_def
  SetupFindTemplate_def DicomValue_Clone_def cpp_new_def cpp_delete_def heap_get_def
  map_find_def tag_less_def Clone_def Remove_def GetValue_def HasTag_def content_def
  ACCESSION_NUMBER_def PATIENT_ID_def STUDY_UID_def SERIES_UID_def

theorem SetupFind_Series_Instance_templates_witness:
  "owns [Some (DicomString ''P1'')] [(PATIENT_ID, 0)] \<and>
   SetupFindSeriesTemplate [Some (DicomString ''P1'')] [(PATIENT_ID, 0)] = Inr
     ([None, Some (DicomString ''''), Some (DicomString ''''), Some (DicomString ''''),
       Some (DicomString ''''), Some (DicomString ''''), Some (DicomString ''''),
       Some (DicomString ''''), Some (DicomString ''''), Some (DicomString ''''),
       Some (DicomString ''''), Some (DicomString ''''), Some (DicomString ''''),
       Some (DicomString ''''), Some (DicomString ''''), Some (DicomString ''''),
       Some (DicomString '''')],
      [(DicomTag 0x0008 0x0021, 1), (DicomTag 0x0008 0x0031, 2), (DicomTag 0x0008 0x0050, 14),
       (DicomTag 0x0008 0x0060, 3), (DicomTag 0x0008 0x0070, 4), (DicomTag 0x0008 0x1010, 5),
       (DicomTag 0x0008 0x103e, 6), (DicomTag 0x0010 0x0020, 15), (DicomTag 0x0018 0x0015, 7),
       (DicomTag 0x0018 0x0024, 8), (DicomTag 0x0018 0x1030, 9), (DicomTag 0x0020 0x000d, 16),
       (DicomTag 0x0020 0x000e, 10), (DicomTag 0x0020 0x0011, 11), (DicomTag 0x0020 0x1002, 12),
       (DicomTag 0x0054 0x0081, 13)]) \<and>
   keys [(DicomTag 0x0008 0x0021, 1), (DicomTag 0x0008 0x0031, 2), (DicomTag 0x0008 0x0050, 14),
       (DicomTag 0x0008 0x0060, 3), (DicomTag 0x0008 0x0070, 4), (DicomTag 0x0008 0x1010, 5),
       (DicomTag 0x0008 0x103e, 6), (DicomTag 0x0010 0x0020, 15), (DicomTag 0x0018 0x0015, 7),
       (DicomTag 0x0018 0x0024, 8), (DicomTag 0x0018 0x1030, 9), (DicomTag 0x0020 0x000d, 16),
       (DicomTag 0x0020 0x000e, 10), (DicomTag 0x0020 0x0011, 11), (DicomTag 0x0020 0x1002, 12),
       (DicomTag 0x0054 0x0081, 13)]
     = set seriesTags \<union> {ACCESSION_NUMBER, PATIENT_ID, STUDY_UID} \<and>
   SetupFindInstanceTemplate [Some (DicomString ''P1'')] [(PATIENT_ID, 0)] = Inr
     ([None, Some (DicomString ''''), Some (DicomString ''''), Some (DicomString ''''),
       Some (DicomString ''''), Some (DicomString ''''), Some (DicomString ''''),
       Some (DicomString ''''), Some (DicomString ''''), Some (DicomString ''''),
       Some (DicomString ''''), Some (DicomString '''')],
      [(DicomTag 0x0008 0x0012, 1), (DicomTag 0x0008 0x0013, 2), (DicomTag 0x0008 0x0018, 3),
       (DicomTag 0x0008 0x0050, 8), (DicomTag 0x0010 0x0020, 9), (DicomTag 0x0020 0x000d, 10),
       (DicomTag 0x0020 0x000e, 11), (DicomTag 0x0020 0x0012, 4), (DicomTag 0x0020 0x0013, 5),
       (DicomTag 0x0028 0x0008, 6), (DicomTag 0x0054 0x1330, 7)]) \<and>
   keys [(DicomTag 0x0008 0x0012, 1), (DicomTag 0x0008 0x0013, 2), (DicomTag 0x0008 0x0018, 3),
       (DicomTag 0x0008 0x0050, 8), (DicomTag 0x0010 0x0020, 9), (DicomTag 0x0020 0x000d, 10),
       (DicomTag 0x0020 0x000e, 11), (DicomTag 0x0020 0x0012, 4), (DicomTag 0x0020 0x0013, 5),
       (DicomTag 0x0028 0x0008, 6), (DicomTag 0x0054 0x1330, 7)]
     = set instanceTags \<union> {ACCESSION_NUMBER, PATIENT_ID, STUDY_UID, SERIES_UID}"
proof -
  let ?h = "[Some (DicomString ''P1'')]"
  let ?r = "[(PATIENT_ID, 0::nat)]"
  have own: "owns ?h ?r"
    by (simp add: owns_def heap_get_def)
  have series: "SetupFindSeriesTemplate ?h ?r = Inr
     ([None, Some (DicomString ''''), Some (DicomString ''''), Some (DicomString ''''),
       Some (DicomString ''''), Some (DicomString ''''), Some (DicomString ''''),
       Some (DicomString ''''), Some (DicomString ''''), Some (DicomString ''''),
       Some (DicomString ''''), Some (DicomString ''''), Some (DicomString ''''),
       Some (DicomString ''''), Some (DicomString ''''), Some (DicomString ''''),
       Some (DicomString '''')],
      [(DicomTag 0x0008 0x0021, 1), (DicomTag 0x0008 0x0031, 2), (DicomTag 0x0008 0x0050, 14),
       (DicomTag 0x0008 0x0060, 3), (DicomTag 0x0008 0x0070, 4), (DicomTag 0x0008 0x1010, 5),
       (DicomTag 0x0008 0x103e, 6), (DicomTag 0x0010 0x0020, 15), (DicomTag 0x0018 0x0015, 7),
       (DicomTag 0x0018 0x0024, 8), (DicomTag 0x0018 0x1030, 9), (DicomTag 0x0020 0x000d, 16),
       (DicomTag 0x0020 0x000e, 10), (DicomTag 0x0020 0x0011, 11), (DicomTag 0x0020 0x1002, 12),
       (DicomTag 0x0054 0x0081, 13)])"
    by (simp add: SetupFindSeriesTemplate_def seriesTags_def run_defs)
  have "instance": "SetupFindInstanceTemplate ?h ?r = Inr
     ([None, Some (DicomString ''''), Some (DicomString ''''), Some (DicomString ''''),
       Some (DicomString ''''), Some (DicomString ''''), Some (DicomString ''''),
       Some (DicomString ''''), Some (DicomString ''''), Some (DicomString ''''),
       Some (DicomString ''''), Some (DicomString '''')],
      [(DicomTag 0x0008 0x0012, 1), (DicomTag 0x0008 0x0013, 2), (DicomTag 0x0008 0x0018, 3),
       (DicomTag 0x0008 0x0050, 8), (DicomTag 0x0010 0x0020, 9), (DicomTag 0x0020 0x000d, 10),
       (DicomTag 0x0020 0x000e, 11), (DicomTag 0x0020 0x0012, 4), (DicomTag 0x0020 0x0013, 5),
       (DicomTag 0x0028 0x0008, 6), (DicomTag 0x0054 0x1330, 7)])"
    by (simp add: SetupFindInstanceTemplate_def instanceTags_def run_defs)
  show ?thesis
    using SetupFind_Series_Instance_templates [OF own] own series "instance"
    by simp
qed

section \<open>Extraction by level\<close>

text \<open>
  C1. The source map is populated from an empty map and an empty store with
  \<open>PatientID = P1\<close> (0010,0020), \<open>StudyInstanceUID = S1\<close> (0020,000D),
  \<open>SeriesInstanceUID = SE1\<close> (0020,000E) and \<open>Modality = CT\<close> (0008,0060).
  \<open>ExtractSeriesInformation\<close> into an empty output map then returns a map with exactly two
  keys: \<open>Modality\<close> with content \<open>CT\<close> and \<open>SeriesInstanceUID\<close> with content \<open>SE1\<close>, since
  (0020,000E) is a tag of the Series registry. \<open>PatientID\<close> and \<open>StudyInstanceUID\<close> are
  absent from the result.
\<close>

theorem ExtractSeriesInformation_scenario:
  "and_then (SetValue_string [] [] (DicomTag 0x0010 0x0020) ''P1'') (\<lambda>(h1, m1).
   and_then (SetValue_string h1 m1 (DicomTag 0x0020 0x000d) ''S1'') (\<lambda>(h2, m2).
   and_then (SetValue_string h2 m2 (DicomTag 0x0020 0x000e) ''SE1'') (\<lambda>(h3, m3).
   SetValue_string h3 m3 (DicomTag 0x0008 0x0060) ''CT'')))
   = Inr ([Some (DicomString ''P1''), Some (DicomString ''S1''), Some (DicomString ''SE1''),
           Some (DicomString ''CT'')],
          [(DicomTag 0x0008 0x0060, 3), (DicomTag 0x0010 0x0020, 0), (DicomTag 0x0020 0x000d, 1),
           (DicomTag 0x0020 0x000e, 2)]) \<and>
   ExtractSeriesInformation
     [(DicomTag 0x0008 0x0060, 3), (DicomTag 0x0010 0x0020, 0), (DicomTag 0x0020 0x000d, 1),
      (DicomTag 0x0020 0x000e, 2)]
     [Some (DicomString ''P1''), Some (DicomString ''S1''), Some (DicomString ''SE1''),
      Some (DicomString ''CT'')] []
   = Inr ([Some (DicomString ''P1''), Some (DicomString ''S1''), Some (DicomString ''SE1''),
           Some (DicomString ''CT''), Some (DicomString ''CT''), Some (DicomString ''SE1'')],
          [(DicomTag 0x0008 0x0060, 4), (DicomTag 0x0020 0x000e, 5)]) \<and>
   keys [(DicomTag 0x0008 0x0060, 4), (DicomTag 0x0020 0x000e, 5)]
     = {DicomTag 0x0008 0x0060, DicomTag 0x0020 0x000e} \<and>
   content [Some (DicomString ''P1''), Some (DicomString ''S1''), Some (DicomString ''SE1''),
            Some (DicomString ''CT''), Some (DicomString ''CT''), Some (DicomString ''SE1'')]
           [(DicomTag 0x0008 0x0060, 4), (DicomTag 0x0020 0x000e, 5)] (DicomTag 0x0008 0x0060)
     = Some (DicomString ''CT'') \<and>
   content [Some (DicomString ''P1''), Some (DicomString ''S1''), Some (DicomString ''SE1''),
            Some (DicomString ''CT''), Some (DicomString ''CT''), Some (DicomString ''SE1'')]
           [(DicomTag 0x0008 0x0060, 4), (DicomTag 0x0020 0x000e, 5)] (DicomTag 0x0020 0x000e)
     = Some (DicomString ''SE1'') \<and>
   \<not> HasTag [(DicomTag 0x0008 0x0060, 4), (DicomTag 0x0020 0x000e, 5)] (DicomTag 0x0010 0x0020) \<and>
   \<not> HasTag [(DicomTag 0x0008 0x0060, 4), (DicomTag 0x0020 0x000e, 5)] (DicomTag 0x0020 0x000d)"
  by (simp add: ExtractSeriesInformation_def seriesTags_def keys_def run_defs)

text \<open>
  The same run shows that \<open>SeriesInstanceUID\<close> is not absent from the result: the output
  map has the tag (0020,000E), with content \<open>SE1\<close>.
\<close>

theorem ExtractSeriesInformation_scenario_counterexample:
  "ExtractSeriesInformation
     [(DicomTag 0x0008 0x0060, 3), (DicomTag 0x0010 0x0020, 0), (DicomTag 0x0020 0x000d, 1),
      (DicomTag 0x0020 0x000e, 2)]
     [Some (DicomString ''P1''), Some (DicomString ''S1''), Some (DicomString ''SE1''),
      Some (DicomString ''CT'')] []
   = Inr ([Some (DicomString ''P1''), Some (DicomString ''S1''), Some (DicomString ''SE1''),
           Some (DicomString ''CT''), Some (DicomString ''CT''), Some (DicomString ''SE1'')],
          [(DicomTag 0x0008 0x0060, 4), (DicomTag 0x0020 0x000e, 5)]) \<and>
   HasTag [(DicomTag 0x0008 0x0060, 4), (DicomTag 0x0020 0x000e, 5)] (DicomTag 0x0020 0x000e) \<and>
   content [Some (DicomString ''P1''), Some (DicomString ''S1''), Some (DicomString ''SE1''),
            Some (DicomString ''CT''), Some (DicomString ''CT''), Some (DicomString ''SE1'')]
           [(DicomTag 0x0008 0x0060, 4), (DicomTag 0x0020 0x000e, 5)] (DicomTag 0x0020 0x000e)
     = Some (DicomString ''SE1'')"
  by (simp add: ExtractSeriesInformation_def seriesTags_def run_defs)

lemma ExtractTags_loop_effect:
  "owns h this \<Longrightarrow> owns h r \<Longrightarrow> ptrs this \<inter> ptrs r = {} \<Longrightarrow>
   \<exists>h' r'. ExtractTags_loop this h r tags = Inr (h', r') \<and> owns h' this \<and> owns h' r' \<and>
      ptrs this \<inter> ptrs r' = {} \<and>
      keys r' = keys r \<union> (set tags \<inter> keys this) \<and>
      (\<forall>t. content h' r' t =
         (if t \<in> set tags \<and> t \<in> keys this then content h this t else content h r t)) \<and>
      (\<forall>a. a \<notin> ptrs r \<longrightarrow> heap_get h a \<noteq> None \<longrightarrow> heap_get h' a = heap_get h a) \<and>
      (\<forall>a < length h. heap_get h a = None \<longrightarrow> heap_get h' a = None) \<and>
      length h \<le> length h'"
proof (induction tags arbitrary: h r)
  case Nil
  then show ?case by simp
next
  case (Cons tag tags)
  note own_this = Cons.prems(1) and own_r = Cons.prems(2) and disj = Cons.prems(3)
  show ?case
  proof (cases "map_find this tag")
    case None
    then have absent: "tag \<notin> keys this"
      by (simp add: map_find_None)
    from Cons.IH [OF Cons.prems] obtain h' r' where
      l: "ExtractTags_loop this h r tags = Inr (h', r')" and rest: "owns h' this" "owns h' r'"
        "ptrs this \<inter> ptrs r' = {}" "keys r' = keys r \<union> (set tags \<inter> keys this)"
        "\<forall>t. content h' r' t =
           (if t \<in> set tags \<and> t \<in> keys this then content h this t else content h r t)"
        "\<forall>a. a \<notin> ptrs r \<longrightarrow> heap_get h a \<noteq> None \<longrightarrow> heap_get h' a = heap_get h a"
        "\<forall>a < length h. heap_get h a = None \<longrightarrow> heap_get h' a = None" "length h \<le> length h'"
      by blast
    have "ExtractTags_loop this h r (tag # tags) = Inr (h', r')"
      using None l by simp
    moreover have "keys r' = keys r \<union> (set (tag # tags) \<inter> keys this)"
      using rest(4) absent by auto
    moreover have "\<forall>t. content h' r' t =
        (if t \<in> set (tag # tags) \<and> t \<in> keys this then content h this t else content h r t)"
      using rest(5) absent by auto
    ultimately show ?thesis
      using rest by blast
  next
    case (Some it)
    then have it: "fst it = tag" "it \<in> set this"
      using map_find_Some by auto
    have lk: "lookup this tag = Some (snd it)"
      using Some by (simp add: lookup_def)
    have present: "tag \<in> keys this"
      using Some map_find_None [of this tag] by auto
    have q: "snd it \<in> ptrs this"
      using lk by (rule lookup_ptrs)
    then obtain v where v: "heap_get h (snd it) = Some v"
      using own_this by (auto simp: owns_iff)
    have cv: "content h this tag = Some v"
      using lk v by (simp add: content_lookup)
    let ?h1 = "h @ [Some v]"
    have clone: "DicomValue_Clone h (snd it) = Inr (length h, ?h1)"
      using v by (rule DicomValue_Clone_live)
    have own1: "owns ?h1 this" "owns ?h1 r"
      using own_this own_r by (simp_all add: owns_new)
    have live: "heap_get ?h1 (length h) = Some v"
      by (simp add: heap_get_new)
    have new: "length h \<notin> ptrs r" "length h \<notin> ptrs this"
      using own_this own_r by (simp_all add: owns_fresh)
    from SetValue_summary [OF own1(2) live new(1), of tag] obtain h2 r2 where
      sv: "SetValue ?h1 r tag (length h) = Inr (h2, r2)" and own2: "owns h2 r2"
      and k2: "keys r2 = insert tag (keys r)" and p2: "ptrs r2 \<subseteq> insert (length h) (ptrs r)"
      and len2: "length h2 = length ?h1"
      and c2: "\<And>t. content h2 r2 t = (if t = tag then Some v else content ?h1 r t)"
      and f2: "\<And>a. a \<notin> ptrs r \<Longrightarrow> heap_get h2 a = heap_get ?h1 a"
      and d2: "\<And>a. heap_get ?h1 a = None \<Longrightarrow> heap_get h2 a = None"
      by blast
    have keep: "heap_get h2 a = heap_get h a" if "a \<notin> ptrs r" "heap_get h a \<noteq> None" for a
      using that f2 by (simp add: heap_get_new_old)
    have this2: "\<forall>a \<in> ptrs this. heap_get h2 a = heap_get h a"
    proof
      fix a assume a: "a \<in> ptrs this"
      then have "a \<notin> ptrs r" and "heap_get h a \<noteq> None"
        using disj own_this by (auto simp: owns_iff)
      then show "heap_get h2 a = heap_get h a"
        by (rule keep)
    qed
    have own_this2: "owns h2 this"
      using own_this this2 by (rule owns_frame)
    have disj2: "ptrs this \<inter> ptrs r2 = {}"
      using p2 disj new(2) by auto
    from Cons.IH [OF own_this2 own2 disj2] obtain h' r' where
      l: "ExtractTags_loop this h2 r2 tags = Inr (h', r')" and own': "owns h' this" "owns h' r'"
        "ptrs this \<inter> ptrs r' = {}"
      and k': "keys r' = keys r2 \<union> (set tags \<inter> keys this)"
      and c': "\<And>t. content h' r' t =
           (if t \<in> set tags \<and> t \<in> keys this then content h2 this t else content h2 r2 t)"
      and f': "\<And>a. a \<notin> ptrs r2 \<Longrightarrow> heap_get h2 a \<noteq> None \<Longrightarrow> heap_get h' a = heap_get h2 a"
      and d': "\<And>a. a < length h2 \<Longrightarrow> heap_get h2 a = None \<Longrightarrow> heap_get h' a = None"
      and len': "length h2 \<le> length h'"
      by blast
    have "ExtractTags_loop this h r (tag # tags) = Inr (h', r')"
      using Some it(1) clone sv l by simp
    moreover have "keys r' = keys r \<union> (set (tag # tags) \<inter> keys this)"
      using k' k2 present by auto
    moreover have "\<forall>t. content h' r' t =
        (if t \<in> set (tag # tags) \<and> t \<in> keys this then content h this t else content h r t)"
    proof
      fix t
      have "content h2 this t = content h this t"
        using this2 by (rule content_frame)
      moreover have "content ?h1 r t = content h r t"
        using own_r by (rule content_new)
      ultimately show "content h' r' t =
        (if t \<in> set (tag # tags) \<and> t \<in> keys this then content h this t else content h r t)"
        using c' [of t] c2 [of t] cv present by auto
    qed
    moreover have "\<forall>a. a \<notin> ptrs r \<longrightarrow> heap_get h a \<noteq> None \<longrightarrow> heap_get h' a = heap_get h a"
    proof (intro allI impI)
      fix a assume a: "a \<notin> ptrs r" "heap_get h a \<noteq> None"
      then have "a \<noteq> length h"
        by (auto simp: heap_get_fresh)
      with a(1) p2 have "a \<notin> ptrs r2"
        by auto
      then show "heap_get h' a = heap_get h a"
        using keep [OF a] f' [of a] a(2) by simp
    qed
    moreover have "\<forall>a < length h. heap_get h a = None \<longrightarrow> heap_get h' a = None"
    proof (intro allI impI)
      fix a assume a: "a < length h" "heap_get h a = None"
      then have "heap_get h2 a = None"
        using d2 [of a] by (simp add: heap_get_new_below)
      then show "heap_get h' a = None"
        using d' [of a] a(1) len2 by simp
    qed
    moreover have "length h \<le> length h'"
      using len2 len' by simp
    ultimately show ?thesis
      using own' by blast
  qed
qed

lemma ExtractTags_effect:
  assumes own_this: "owns h this" and own_r: "owns h r" and disj: "ptrs this \<inter> ptrs r = {}"
  shows "\<exists>h' r'. ExtractTags this h r tags = Inr (h', r') \<and> owns h' this \<and> owns h' r' \<and>
      ptrs this \<inter> ptrs r' = {} \<and>
      keys r' = set tags \<inter> keys this \<and>
      (\<forall>t. content h' r' t = (if t \<in> set tags then content h this t else None)) \<and>
      (\<forall>t. content h' this t = content h this t) \<and>
      (\<forall>a \<in> ptrs r. heap_get h' a = None)"
proof -
  from Clear_effect [OF own_r] obtain h1 where
    cl: "Clear h r = Inr (h1, [])" and len1: "length h1 = length h"
    and g1: "\<And>a. heap_get h1 a = (if a \<in> ptrs r then None else heap_get h a)"
    by blast
  have this1: "\<forall>a \<in> ptrs this. heap_get h1 a = heap_get h a"
    using g1 disj by auto
  have own1: "owns h1 this"
    using own_this this1 by (rule owns_frame)
  have disj1: "ptrs this \<inter> ptrs [] = {}"
    by (simp add: ptrs_def)
  from ExtractTags_loop_effect [OF own1 owns_Nil disj1, of tags] obtain h' r' where
    l: "ExtractTags_loop this h1 [] tags = Inr (h', r')" and own': "owns h' this" "owns h' r'"
      "ptrs this \<inter> ptrs r' = {}"
    and k': "keys r' = keys [] \<union> (set tags \<inter> keys this)"
    and c': "\<And>t. content h' r' t =
         (if t \<in> set tags \<and> t \<in> keys this then content h1 this t else content h1 [] t)"
    and f': "\<And>a. a \<notin> ptrs [] \<Longrightarrow> heap_get h1 a \<noteq> None \<Longrightarrow> heap_get h' a = heap_get h1 a"
    and d': "\<And>a. a < length h1 \<Longrightarrow> heap_get h1 a = None \<Longrightarrow> heap_get h' a = None"
    by blast
  have c1: "content h1 this t = content h this t" for t
    using this1 by (rule content_frame)
  have "ExtractTags this h r tags = Inr (h', r')"
    using cl l by (simp add: ExtractTags_def)
  moreover have "keys r' = set tags \<inter> keys this"
    using k' by (simp add: keys_def)
  moreover have "\<forall>t. content h' r' t = (if t \<in> set tags then content h this t else None)"
    using c' c1 by (simp add: content_None keys_def)
  moreover have "\<forall>t. content h' this t = content h this t"
  proof
    fix t
    have "\<forall>a \<in> ptrs this. heap_get h' a = heap_get h1 a"
      using f' own1 by (simp add: owns_iff ptrs_def)
    then show "content h' this t = content h this t"
      using c1 [of t] content_frame [of this h' h1 t] by simp
  qed
  moreover have "\<forall>a \<in> ptrs r. heap_get h' a = None"
    using d' g1 len1 owns_below [OF own_r] by simp
  ultimately show ?thesis
    using own' by blast
qed

text \<open>
  C2. The source map \<open>m\<close> and the output map are two objects, each owning its values, with
  no value in common. Then, for every tag list \<open>L\<close>, \<open>ExtractTags\<close> succeeds. The keys of
  the output are exactly the tags of \<open>L\<close> that are keys of \<open>m\<close>, one entry each; every such
  tag reads in the output the content it has in \<open>m\<close>; a tag that is not in \<open>m\<close> is not in
  the output. The values of the output are clones: the output shares no pointer with
  \<open>m\<close>, both maps own their values afterwards, and \<open>m\<close> reads as before.
\<close>

theorem ExtractTags_projection:
  assumes "owns h m" and "owns h result" and "ptrs m \<inter> ptrs result = {}"
  shows "\<exists>h' r. ExtractTags m h result L = Inr (h', r) \<and>
           keys r = set L \<inter> keys m \<and> distinct (map fst r) \<and>
           (\<forall>t \<in> keys r. content h' r t = content h m t \<and> content h' r t \<noteq> None) \<and>
           (\<forall>t. t \<notin> keys m \<longrightarrow> \<not> HasTag r t) \<and>
           (\<forall>t. content h' m t = content h m t) \<and>
           ptrs r \<inter> ptrs m = {} \<and> owns h' r \<and> owns h' m"
proof -
  from ExtractTags_effect [OF assms, of L] obtain h' r where
    e: "ExtractTags m h result L = Inr (h', r)" and own: "owns h' m" "owns h' r"
    and disj: "ptrs m \<inter> ptrs r = {}" and k: "keys r = set L \<inter> keys m"
    and c: "\<And>t. content h' r t = (if t \<in> set L then content h m t else None)"
    and cm: "\<forall>t. content h' m t = content h m t"
    by blast
  have "distinct (map fst r)"
    using own(2) by (simp add: owns_iff)
  moreover have "\<forall>t \<in> keys r. content h' r t = content h m t \<and> content h' r t \<noteq> None"
    using c k owns_content [OF own(2)] by auto
  moreover have "\<forall>t. t \<notin> keys m \<longrightarrow> \<not> HasTag r t"
    using k by (simp add: HasTag_keys)
  moreover have "ptrs r \<inter> ptrs m = {}"
    using disj by auto
  ultimately show ?thesis
    using e own k cm by blast
qed

theorem ExtractTags_projection_witness:
  "owns [Some (DicomString ''CT''), Some (DicomString ''P1''), Some (DicomString ''old'')]
        [(DicomTag 0x0008 0x0060, 0), (DicomTag 0x0010 0x0020, 1)] \<and>
   owns [Some (DicomString ''CT''), Some (DicomString ''P1''), Some (DicomString ''old'')]
        [(DicomTag 0x0020 0x000d, 2)] \<and>
   ptrs [(DicomTag 0x0008 0x0060, 0), (DicomTag 0x0010 0x0020, 1)]
     \<inter> ptrs [(DicomTag 0x0020 0x000d, 2)] = {} \<and>
   ExtractTags [(DicomTag 0x0008 0x0060, 0), (DicomTag 0x0010 0x0020, 1)]
     [Some (DicomString ''CT''), Some (DicomString ''P1''), Some (DicomString ''old'')]
     [(DicomTag 0x0020 0x000d, 2)] [DicomTag 0x0010 0x0020, DicomTag 0x0020 0x000d]
     = Inr ([Some (DicomString ''CT''), Some (DicomString ''P1''), None,
             Some (DicomString ''P1'')], [(DicomTag 0x0010 0x0020, 3)]) \<and>
   keys [(DicomTag 0x0010 0x0020, 3)]
     = set [DicomTag 0x0010 0x0020, DicomTag 0x0020 0x000d]
       \<inter> keys [(DicomTag 0x0008 0x0060, 0), (DicomTag 0x0010 0x0020, 1)] \<and>
   content [Some (DicomString ''CT''), Some (DicomString ''P1''), None, Some (DicomString ''P1'')]
     [(DicomTag 0x0010 0x0020, 3)] (DicomTag 0x0010 0x0020) = Some (DicomString ''P1'')"
proof -
  let ?h = "[Some (DicomString ''CT''), Some (DicomString ''P1''), Some (DicomString ''old'')]"
  let ?m = "[(DicomTag 0x0008 0x0060, 0::nat), (DicomTag 0x0010 0x0020, 1)]"
  let ?r = "[(DicomTag 0x0020 0x000d, 2::nat)]"
  let ?L = "[DicomTag 0x0010 0x0020, DicomTag 0x0020 0x000d]"
  have own: "owns ?h ?m" "owns ?h ?r"
    by (simp_all add: owns_def heap_get_def)
  have disj: "ptrs ?m \<inter> ptrs ?r = {}"
    by (simp add: ptrs_def)
  have run: "ExtractTags ?m ?h ?r ?L
     = Inr ([Some (DicomString ''CT''), Some (DicomString ''P1''), None,
             Some (DicomString ''P1'')], [(DicomTag 0x0010 0x0020, 3)])"
    by (simp add: run_defs)
  have c: "content [Some (DicomString ''CT''), Some (DicomString ''P1''), None, Some (DicomString ''P1'')]
     [(DicomTag 0x0010 0x0020, 3)] (DicomTag 0x0010 0x0020) = Some (DicomString ''P1'')"
    by (simp add: run_defs)
  show ?thesis
    using ExtractTags_projection [OF own disj, of ?L] own disj run c
    by simp
qed

section \<open>The output map is emptied first\<close>

lemma and_then_return: "and_then x Inr = x"
  by (cases x) auto

lemma SetupFindTemplate_loop_append:
  "SetupFindTemplate_loop h r (xs @ ys) =
     and_then (SetupFindTemplate_loop h r xs) (\<lambda>(h1, r1). SetupFindTemplate_loop h1 r1 ys)"
proof (induction xs arbitrary: h r)
  case Nil
  then show ?case by simp
next
  case (Cons x xs)
  then show ?case
    by (cases "SetValue_string h r x ''''") auto
qed

lemma SetupFindTemplate_append:
  "SetupFindTemplate h r (xs @ ys) =
     and_then (SetupFindTemplate h r xs) (\<lambda>(h1, r1). SetupFindTemplate_loop h1 r1 ys)"
  by (cases "Clear h r") (auto simp: SetupFindTemplate_def SetupFindTemplate_loop_append)

lemma SetupFindStudyTemplate_tags:
  "SetupFindStudyTemplate h r = SetupFindTemplate h r (studyTags @ [ACCESSION_NUMBER, PATIENT_ID])"
proof (cases "SetupFindTemplate h r studyTags")
  case (Inl e)
  then show ?thesis
    by (simp add: SetupFindStudyTemplate_def SetupFindTemplate_append)
next
  case (Inr hr)
  then show ?thesis
    by (cases hr) (simp add: SetupFindStudyTemplate_def SetupFindTemplate_append and_then_return)
qed

lemma SetupFindSeriesTemplate_tags:
  "SetupFindSeriesTemplate h r =
     SetupFindTemplate h r (seriesTags @ [ACCESSION_NUMBER, PATIENT_ID, STUDY_UID])"
proof (cases "SetupFindTemplate h r seriesTags")
  case (Inl e)
  then show ?thesis
    by (simp add: SetupFindSeriesTemplate_def SetupFindTemplate_append)
next
  case (Inr hr)
  then show ?thesis
    by (cases hr) (simp add: SetupFindSeriesTemplate_def SetupFindTemplate_append and_then_return)
qed

lemma SetupFindInstanceTemplate_tags:
  "SetupFindInstanceTemplate h r =
     SetupFindTemplate h r (instanceTags @ [ACCESSION_NUMBER, PATIENT_ID, STUDY_UID, SERIES_UID])"
proof (cases "SetupFindTemplate h r instanceTags")
  case (Inl e)
  then show ?thesis
    by (simp add: SetupFindInstanceTemplate_def SetupFindTemplate_append)
next
  case (Inr hr)
  then show ?thesis
    by (cases hr) (simp add: SetupFindInstanceTemplate_def SetupFindTemplate_append and_then_return)
qed

lemma ExtractTags_replaces:
  assumes "owns h this" and "owns h result" and "ptrs this \<inter> ptrs result = {}"
  shows "\<exists>h' r. ExtractTags this h result tags = Inr (h', r) \<and>
           keys r = set tags \<inter> keys this \<and>
           (\<forall>t. content h' r t = (if t \<in> set tags then content h this t else None)) \<and>
           (\<forall>p \<in> ptrs result. heap_get h' p = None \<and> p \<notin> ptrs r)"
proof -
  from ExtractTags_effect [OF assms, of tags] obtain h' r where
    e: "ExtractTags this h result tags = Inr (h', r)" and own: "owns h' r"
    and k: "keys r = set tags \<inter> keys this"
    and c: "\<forall>t. content h' r t = (if t \<in> set tags then content h this t else None)"
    and d: "\<forall>a \<in> ptrs result. heap_get h' a = None"
    by blast
  have "\<forall>p \<in> ptrs result. heap_get h' p = None \<and> p \<notin> ptrs r"
    using d own by (auto simp: owns_iff)
  then show ?thesis
    using e k c by blast
qed

lemma SetupFindTemplate_replaces:
  assumes "owns h result"
  shows "\<exists>h' r. SetupFindTemplate h result tags = Inr (h', r) \<and>
           keys r = set tags \<and>
           (\<forall>t. content h' r t = (if t \<in> set tags then Some (DicomString '''') else None)) \<and>
           (\<forall>p \<in> ptrs result. heap_get h' p = None \<and> p \<notin> ptrs r)"
proof -
  from SetupFindTemplate_effect [OF assms, of tags] obtain h' r where
    e: "SetupFindTemplate h result tags = Inr (h', r)" and own: "owns h' r"
    and k: "keys r = set tags"
    and c: "\<forall>t. content h' r t = (if t \<in> set tags then Some (DicomString '''') else None)"
    and d: "\<forall>a \<in> ptrs result. heap_get h' a = None"
    by blast
  have "\<forall>p \<in> ptrs result. heap_get h' p = None \<and> p \<notin> ptrs r"
    using d own by (auto simp: owns_iff)
  then show ?thesis
    using e k c by blast
qed

text \<open>
  C10. \<open>ExtractTags\<close> and \<open>SetupFindTemplate\<close> start with \<open>Clear\<close> on the output map. So,
  whatever entries the output map held before the call, the call succeeds and the output
  map afterwards is the projection, or the template, alone: its keys and what every tag
  reads are given by the tag list (and the source map) only, and every value the output
  map held before is destroyed and is no longer in the map. For \<open>ExtractTags\<close> the output
  map and the source map are two objects that own their values and share none. The four
  level extractions are \<open>ExtractTags\<close> on the four registries, and the four template
  builders are \<open>SetupFindTemplate\<close> on the registry followed by the cascading keys.
\<close>

theorem output_map_replaced:
  "(owns h this \<and> owns h result \<and> ptrs this \<inter> ptrs result = {} \<longrightarrow>
      (\<exists>h' r. ExtractTags this h result tags = Inr (h', r) \<and>
         keys r = set tags \<inter> keys this \<and>
         (\<forall>t. content h' r t = (if t \<in> set tags then content h this t else None)) \<and>
         (\<forall>p \<in> ptrs result. heap_get h' p = None \<and> p \<notin> ptrs r))) \<and>
   (owns h result \<longrightarrow>
      (\<exists>h' r. SetupFindTemplate h result tags = Inr (h', r) \<and>
         keys r = set tags \<and>
         (\<forall>t. content h' r t = (if t \<in> set tags then Some (DicomString '''') else None)) \<and>
         (\<forall>p \<in> ptrs result. heap_get h' p = None \<and> p \<notin> ptrs r))) \<and>
   ExtractPatientInformation this h result = ExtractTags this h result patientTags \<and>
   ExtractStudyInformation this h result = ExtractTags this h result studyTags \<and>
   ExtractSeriesInformation this h result = ExtractTags this h result seriesTags \<and>
   ExtractInstanceInformation this h result = ExtractTags this h result instanceTags \<and>
   SetupFindPatientTemplate h result = SetupFindTemplate h result patientTags \<and>
   SetupFindStudyTemplate h result
     = SetupFindTemplate h result (studyTags @ [ACCESSION_NUMBER, PATIENT_ID]) \<and>
   SetupFindSeriesTemplate h result
     = SetupFindTemplate h result (seriesTags @ [ACCESSION_NUMBER, PATIENT_ID, STUDY_UID]) \<and>
   SetupFindInstanceTemplate h result
     = SetupFindTemplate h result
         (instanceTags @ [ACCESSION_NUMBER, PATIENT_ID, STUDY_UID, SERIES_UID])"
  using ExtractTags_replaces [of h this result tags] SetupFindTemplate_replaces [of h result tags]
  by (simp add: ExtractPatientInformation_def ExtractStudyInformation_def
      ExtractSeriesInformation_def ExtractInstanceInformation_def SetupFindPatientTemplate_def
      SetupFindStudyTemplate_tags SetupFindSeriesTemplate_tags SetupFindInstanceTemplate_tags)

theorem output_map_replaced_witness:
  "owns [Some (DicomString ''CT''), Some (DicomString ''P1''), Some (DicomString ''old'')]
        [(DicomTag 0x0008 0x0060, 0), (DicomTag 0x0010 0x0020, 1)] \<and>
   owns [Some (DicomString ''CT''), Some (DicomString ''P1''), Some (DicomString ''old'')]
        [(DicomTag 0x0020 0x000d, 2)] \<and>
   ptrs [(DicomTag 0x0008 0x0060, 0), (DicomTag 0x0010 0x0020, 1)]
     \<inter> ptrs [(DicomTag 0x0020 0x000d, 2)] = {} \<and>
   ExtractTags [(DicomTag 0x0008 0x0060, 0), (DicomTag 0x0010 0x0020, 1)]
     [Some (DicomString ''CT''), Some (DicomString ''P1''), Some (DicomString ''old'')]
     [(DicomTag 0x0020 0x000d, 2)] [DicomTag 0x0010 0x0020]
     = Inr ([Some (DicomString ''CT''), Some (DicomString ''P1''), None,
             Some (DicomString ''P1'')], [(DicomTag 0x0010 0x0020, 3)]) \<and>
   SetupFindTemplate
     [Some (DicomString ''CT''), Some (DicomString ''P1''), Some (DicomString ''old'')]
     [(DicomTag 0x0020 0x000d, 2)] [DicomTag 0x0010 0x0020]
     = Inr ([Some (DicomString ''CT''), Some (DicomString ''P1''), None,
             Some (DicomString '''')], [(DicomTag 0x0010 0x0020, 3)]) \<and>
   \<not> HasTag [(DicomTag 0x0010 0x0020, 3)] (DicomTag 0x0020 0x000d) \<and>
   heap_get [Some (DicomString ''CT''), Some (DicomString ''P1''), None, Some (DicomString ''P1'')] 2
     = None"
proof -
  let ?h = "[Some (DicomString ''CT''), Some (DicomString ''P1''), Some (DicomString ''old'')]"
  let ?m = "[(DicomTag 0x0008 0x0060, 0::nat), (DicomTag 0x0010 0x0020, 1)]"
  let ?r = "[(DicomTag 0x0020 0x000d, 2::nat)]"
  let ?L = "[DicomTag 0x0010 0x0020]"
  have own: "owns ?h ?m" "owns ?h ?r"
    by (simp_all add: owns_def heap_get_def)
  have disj: "ptrs ?m \<inter> ptrs ?r = {}"
    by (simp add: ptrs_def)
  have run: "ExtractTags ?m ?h ?r ?L
     = Inr ([Some (DicomString ''CT''), Some (DicomString ''P1''), None,
             Some (DicomString ''P1'')], [(DicomTag 0x0010 0x0020, 3)])"
    "SetupFindTemplate ?h ?r ?L
     = Inr ([Some (DicomString ''CT''), Some (DicomString ''P1''), None,
             Some (DicomString '''')], [(DicomTag 0x0010 0x0020, 3)])"
    by (simp_all add: run_defs)
  have more: "\<not> HasTag [(DicomTag 0x0010 0x0020, 3)] (DicomTag 0x0020 0x000d)"
    "heap_get [Some (DicomString ''CT''), Some (DicomString ''P1''), None, Some (DicomString ''P1'')] 2
     = None"
    by (simp_all add: run_defs)
  show ?thesis
    using output_map_replaced [of ?h ?m ?r ?L] own disj run more
    by simp
qed

section \<open>Clone\<close>

lemma lookup_Cons: "lookup (e # es) t = (if fst e = t then Some (snd e) else lookup es t)"
  by (simp add: lookup_def map_find_def)

lemma Clone_loop_effect:
  "owns h rest \<Longrightarrow> owns h r \<Longrightarrow> keys r \<inter> keys rest = {} \<Longrightarrow>
   \<exists>h' r'. Clone_loop h r rest = Inr (h', r') \<and> owns h' r' \<and>
      keys r' = keys r \<union> keys rest \<and>
      (\<forall>t. content h' r' t = (if t \<in> keys rest then content h rest t else content h r t)) \<and>
      ptrs r' \<subseteq> ptrs r \<union> {a. length h \<le> a} \<and>
      length h \<le> length h' \<and>
      (\<forall>a < length h. heap_get h' a = heap_get h a)"
proof (induction rest arbitrary: h r)
  case Nil
  then show ?case by (simp add: keys_def)
next
  case (Cons e es)
  note own_rest = Cons.prems(1) and own_r = Cons.prems(2) and disj = Cons.prems(3)
  from own_rest obtain v where v: "heap_get h (snd e) = Some v"
    by (auto simp: owns_iff ptrs_def)
  have own_es: "owns h es"
    using own_rest by (simp add: owns_iff ptrs_def)
  have fresh_key: "fst e \<notin> keys es" "fst e \<notin> keys r"
    using own_rest disj by (auto simp: owns_iff keys_def)
  let ?h1 = "h @ [Some v]"
  let ?r1 = "map_insert (fst e) (length h) r"
  have clone: "DicomValue_Clone h (snd e) = Inr (length h, ?h1)"
    using v by (rule DicomValue_Clone_live)
  have new: "length h \<notin> ptrs r"
    using own_r by (rule owns_fresh)
  have p1: "ptrs ?r1 = insert (length h) (ptrs r)"
    using fresh_key(2) by (rule ptrs_map_insert)
  have k1: "keys ?r1 = insert (fst e) (keys r)"
    using fresh_key(2) by (rule keys_map_insert)
  have own1: "owns ?h1 ?r1"
    using own_r new fresh_key(2) owns_new [OF own_r, of "Some v"]
    by (simp add: owns_iff distinct_fst_map_insert distinct_snd_map_insert p1 heap_get_new)
  have own_es1: "owns ?h1 es"
    using own_es by (rule owns_new)
  have disj1: "keys ?r1 \<inter> keys es = {}"
    using k1 fresh_key(1) disj by (auto simp: keys_def)
  from Cons.IH [OF own_es1 own1 disj1] obtain h' r' where
    l: "Clone_loop ?h1 ?r1 es = Inr (h', r')" and own': "owns h' r'"
    and k': "keys r' = keys ?r1 \<union> keys es"
    and c': "\<And>t. content h' r' t = (if t \<in> keys es then content ?h1 es t else content ?h1 ?r1 t)"
    and p': "ptrs r' \<subseteq> ptrs ?r1 \<union> {a. length ?h1 \<le> a}"
    and len': "length ?h1 \<le> length h'"
    and f': "\<And>a. a < length ?h1 \<Longrightarrow> heap_get h' a = heap_get ?h1 a"
    by blast
  have "Clone_loop h r (e # es) = Inr (h', r')"
    using clone l by simp
  moreover have "keys r' = keys r \<union> keys (e # es)"
    using k' k1 by (auto simp: keys_def)
  moreover have "\<forall>t. content h' r' t =
      (if t \<in> keys (e # es) then content h (e # es) t else content h r t)"
  proof
    fix t
    have a: "content ?h1 es t = content h es t"
      using own_es by (rule content_new)
    have b: "content ?h1 ?r1 t = (if t = fst e then Some v else content h r t)"
      using content_new [OF own_r, of "Some v" t] fresh_key(2)
      by (simp add: content_lookup lookup_map_insert heap_get_new)
    have c: "content h (e # es) t = (if t = fst e then Some v else content h es t)"
      using v by (auto simp: content_lookup lookup_Cons)
    have d: "t \<in> keys (e # es) \<longleftrightarrow> t = fst e \<or> t \<in> keys es"
      by (auto simp: keys_def)
    show "content h' r' t = (if t \<in> keys (e # es) then content h (e # es) t else content h r t)"
      using c' [of t] a b c d fresh_key(1) by auto
  qed
  moreover have "ptrs r' \<subseteq> ptrs r \<union> {a. length h \<le> a}"
    using p' p1 by auto
  moreover have "length h \<le> length h'"
    using len' by simp
  moreover have "\<forall>a < length h. heap_get h' a = heap_get h a"
    using f' by (simp add: heap_get_new_below)
  ultimately show ?case
    using own' by blast
qed

lemma Clone_effect:
  assumes own: "owns h m"
  shows "\<exists>h' m2. Clone h m = Inr (h', m2) \<and> owns h' m \<and> owns h' m2 \<and>
      ptrs m \<inter> ptrs m2 = {} \<and> keys m2 = keys m \<and>
      (\<forall>t. content h' m2 t = content h m t) \<and>
      (\<forall>t. content h' m t = content h m t)"
proof -
  have "keys [] \<inter> keys m = {}"
    by (simp add: keys_def)
  from Clone_loop_effect [OF own owns_Nil this] obtain h' m2 where
    l: "Clone_loop h [] m = Inr (h', m2)" and own2: "owns h' m2"
    and k: "keys m2 = keys [] \<union> keys m"
    and c: "\<And>t. content h' m2 t = (if t \<in> keys m then content h m t else content h [] t)"
    and p: "ptrs m2 \<subseteq> ptrs [] \<union> {a. length h \<le> a}"
    and f: "\<And>a. a < length h \<Longrightarrow> heap_get h' a = heap_get h a"
    by blast
  have same: "\<forall>a \<in> ptrs m. heap_get h' a = heap_get h a"
    using f owns_below [OF own] by simp
  have "owns h' m"
    using own same by (rule owns_frame)
  moreover have "ptrs m \<inter> ptrs m2 = {}"
    using p owns_below [OF own] by (fastforce simp: ptrs_def)
  moreover have "keys m2 = keys m"
    using k by (simp add: keys_def)
  moreover have "\<forall>t. content h' m2 t = content h m t"
    using c by (simp add: content_None keys_def)
  moreover have "\<forall>t. content h' m t = content h m t"
    using same by (simp add: content_frame)
  ultimately show ?thesis
    using l own2 by (simp add: Clone_def)
qed

lemma Remove_effect:
  assumes own: "owns h m"
  shows "\<exists>h' m'. Remove h m tag = Inr (h', m') \<and> owns h' m' \<and> ptrs m' \<subseteq> ptrs m \<and>
      (\<forall>a. a \<notin> ptrs m \<longrightarrow> heap_get h' a = heap_get h a)"
proof (cases "lookup m tag")
  case None
  then have "tag \<notin> keys m"
    by (simp add: lookup_None)
  then show ?thesis
    using own by (simp add: Remove_absent)
next
  case (Some q)
  then obtain it where it: "map_find m tag = Some it" "snd it = q"
    by (auto simp: lookup_def)
  have q: "q \<in> ptrs m"
    using Some by (rule lookup_ptrs)
  then obtain v where v: "heap_get h q = Some v"
    using own by (auto simp: owns_iff)
  have dist: "distinct (map fst m)" "distinct (map snd m)"
    using own by (simp_all add: owns_iff)
  have p: "ptrs (map_erase tag m) = ptrs m - {q}"
    using dist Some by (rule ptrs_map_erase)
  have "Remove h m tag = Inr (h[q := None], map_erase tag m)"
    using it v by (simp add: Remove_def cpp_delete_live)
  moreover have "owns (h[q := None]) (map_erase tag m)"
    using own p dist
    by (auto simp: owns_iff distinct_fst_map_erase distinct_snd_map_erase heap_get_free)
  moreover have "\<forall>a. a \<notin> ptrs m \<longrightarrow> heap_get (h[q := None]) a = heap_get h a"
    using q by (auto simp: heap_get_free)
  ultimately show ?thesis
    using p by auto
qed

text \<open>A call on one map leaves alone the values of another map that shares none with it.\<close>

lemma perform_frame:
  assumes own_a: "owns h a" and own_b: "owns h b" and disj: "ptrs a \<inter> ptrs b = {}"
  shows "\<exists>h' a'. perform h a c = Inr (h', a') \<and> owns h' a' \<and> owns h' b \<and>
      ptrs a' \<inter> ptrs b = {} \<and> (\<forall>p \<in> ptrs b. heap_get h' p = heap_get h p)"
proof (cases c)
  case (Call_SetValue tag v)
  let ?h1 = "h @ [Some v]"
  have own1: "owns ?h1 a"
    using own_a by (rule owns_new)
  have live: "heap_get ?h1 (length h) = Some v"
    by (simp add: heap_get_new)
  have new: "length h \<notin> ptrs a" "length h \<notin> ptrs b"
    using own_a own_b by (simp_all add: owns_fresh)
  from SetValue_summary [OF own1 live new(1), of tag] obtain h' a' where
    s: "SetValue ?h1 a tag (length h) = Inr (h', a')" and own': "owns h' a'"
    and p: "ptrs a' \<subseteq> insert (length h) (ptrs a)"
    and f: "\<And>x. x \<notin> ptrs a \<Longrightarrow> heap_get h' x = heap_get ?h1 x"
    by blast
  have same: "\<forall>x \<in> ptrs b. heap_get h' x = heap_get h x"
  proof
    fix x assume x: "x \<in> ptrs b"
    then have "x \<notin> ptrs a" and "x < length h"
      using disj owns_below [OF own_b] by auto
    then show "heap_get h' x = heap_get h x"
      using f [of x] by (simp add: heap_get_new_below)
  qed
  have "perform h a c = Inr (h', a')"
    using Call_SetValue s by (simp add: cpp_new_def)
  moreover have "owns h' b"
    using own_b same by (rule owns_frame)
  moreover have "ptrs a' \<inter> ptrs b = {}"
    using p disj new(2) by auto
  ultimately show ?thesis
    using own' same by blast
next
  case (Call_Remove tag)
  from Remove_effect [OF own_a, of tag] obtain h' a' where
    s: "Remove h a tag = Inr (h', a')" and own': "owns h' a'" and p: "ptrs a' \<subseteq> ptrs a"
    and f: "\<And>x. x \<notin> ptrs a \<Longrightarrow> heap_get h' x = heap_get h x"
    by blast
  have same: "\<forall>x \<in> ptrs b. heap_get h' x = heap_get h x"
    using f disj by auto
  have "perform h a c = Inr (h', a')"
    using Call_Remove s by simp
  moreover have "owns h' b"
    using own_b same by (rule owns_frame)
  moreover have "ptrs a' \<inter> ptrs b = {}"
    using p disj by auto
  ultimately show ?thesis
    using own' same by blast
next
  case Call_Clear
  from Clear_effect [OF own_a] obtain h' where
    s: "Clear h a = Inr (h', [])"
    and g: "\<And>x. heap_get h' x = (if x \<in> ptrs a then None else heap_get h x)"
    by blast
  have same: "\<forall>x \<in> ptrs b. heap_get h' x = heap_get h x"
    using g disj by auto
  have "perform h a c = Inr (h', [])"
    using Call_Clear s by simp
  moreover have "owns h' b"
    using own_b same by (rule owns_frame)
  moreover have "ptrs [] \<inter> ptrs b = {}"
    by (simp add: ptrs_def)
  ultimately show ?thesis
    using same owns_Nil by blast
qed

lemma perform_all_frame:
  "owns h a \<Longrightarrow> owns h b \<Longrightarrow> ptrs a \<inter> ptrs b = {} \<Longrightarrow>
   \<exists>h' a'. perform_all h a cs = Inr (h', a') \<and> owns h' a' \<and> owns h' b \<and>
      ptrs a' \<inter> ptrs b = {} \<and> (\<forall>p \<in> ptrs b. heap_get h' p = heap_get h p)"
proof (induction cs arbitrary: h a)
  case Nil
  then show ?case by simp
next
  case (Cons c cs)
  from perform_frame [OF Cons.prems, of c] obtain h1 a1 where
    s: "perform h a c = Inr (h1, a1)" and inv: "owns h1 a1" "owns h1 b" "ptrs a1 \<inter> ptrs b = {}"
    and same1: "\<forall>p \<in> ptrs b. heap_get h1 p = heap_get h p"
    by blast
  from Cons.IH [OF inv] obtain h' a' where
    l: "perform_all h1 a1 cs = Inr (h', a')" and inv': "owns h' a'" "owns h' b"
      "ptrs a' \<inter> ptrs b = {}"
    and same': "\<forall>p \<in> ptrs b. heap_get h' p = heap_get h1 p"
    by blast
  have "perform_all h a (c # cs) = Inr (h', a')"
    using s l by simp
  moreover have "\<forall>p \<in> ptrs b. heap_get h' p = heap_get h p"
    using same1 same' by simp
  ultimately show ?case
    using inv' by blast
qed

text \<open>
  C6. \<open>Clone\<close> of a map \<open>m\<close> that owns its values succeeds and yields a map \<open>m2\<close> with the
  same tags, every tag reading in \<open>m2\<close> the content it has in \<open>m\<close>, while \<open>m\<close> reads as
  before. The values of \<open>m2\<close> are its own: \<open>m2\<close> shares no pointer with \<open>m\<close> and both maps
  own their values. Whatever sequence of \<open>SetValue\<close>, \<open>Remove\<close> and \<open>Clear\<close> calls is then
  made on \<open>m\<close>, the calls succeed and no value of \<open>m2\<close> changes, so every tag reads in
  \<open>m2\<close> what it read before the calls (\<open>HasTag\<close> and \<open>GetValue\<close> depend on \<open>m2\<close> itself, which
  calls on another object do not touch); and the same with \<open>m\<close> and \<open>m2\<close> exchanged.
\<close>

theorem Clone_independent:
  assumes "owns h m"
  shows "\<exists>h1 m2. Clone h m = Inr (h1, m2) \<and>
      (\<forall>t. HasTag m2 t = HasTag m t \<and> content h1 m2 t = content h m t \<and>
           content h1 m t = content h m t) \<and>
      ptrs m2 \<inter> ptrs m = {} \<and> owns h1 m2 \<and> owns h1 m \<and>
      (\<forall>calls. \<exists>h2 m'. perform_all h1 m calls = Inr (h2, m') \<and>
          (\<forall>p \<in> ptrs m2. heap_get h2 p = heap_get h1 p) \<and>
          (\<forall>t. content h2 m2 t = content h1 m2 t)) \<and>
      (\<forall>calls. \<exists>h2 m2'. perform_all h1 m2 calls = Inr (h2, m2') \<and>
          (\<forall>p \<in> ptrs m. heap_get h2 p = heap_get h1 p) \<and>
          (\<forall>t. content h2 m t = content h1 m t))"
proof -
  from Clone_effect [OF assms] obtain h1 m2 where
    cl: "Clone h m = Inr (h1, m2)" and own: "owns h1 m" "owns h1 m2"
    and disj: "ptrs m \<inter> ptrs m2 = {}" and k: "keys m2 = keys m"
    and c: "\<forall>t. content h1 m2 t = content h m t" "\<forall>t. content h1 m t = content h m t"
    by blast
  have disj': "ptrs m2 \<inter> ptrs m = {}"
    using disj by auto
  have obs: "\<forall>t. HasTag m2 t = HasTag m t \<and> content h1 m2 t = content h m t \<and>
           content h1 m t = content h m t"
    using k c by (simp add: HasTag_keys)
  have on_m: "\<forall>calls. \<exists>h2 m'. perform_all h1 m calls = Inr (h2, m') \<and>
          (\<forall>p \<in> ptrs m2. heap_get h2 p = heap_get h1 p) \<and>
          (\<forall>t. content h2 m2 t = content h1 m2 t)"
  proof
    fix calls
    from perform_all_frame [OF own(1) own(2) disj, of calls] obtain h2 m' where
      "perform_all h1 m calls = Inr (h2, m')" "\<forall>p \<in> ptrs m2. heap_get h2 p = heap_get h1 p"
      by blast
    then show "\<exists>h2 m'. perform_all h1 m calls = Inr (h2, m') \<and>
          (\<forall>p \<in> ptrs m2. heap_get h2 p = heap_get h1 p) \<and>
          (\<forall>t. content h2 m2 t = content h1 m2 t)"
      using content_frame [of m2 h2 h1] by blast
  qed
  have on_m2: "\<forall>calls. \<exists>h2 m2'. perform_all h1 m2 calls = Inr (h2, m2') \<and>
          (\<forall>p \<in> ptrs m. heap_get h2 p = heap_get h1 p) \<and>
          (\<forall>t. content h2 m t = content h1 m t)"
  proof
    fix calls
    from perform_all_frame [OF own(2) own(1) disj', of calls] obtain h2 m2' where
      "perform_all h1 m2 calls = Inr (h2, m2')" "\<forall>p \<in> ptrs m. heap_get h2 p = heap_get h1 p"
      by blast
    then show "\<exists>h2 m2'. perform_all h1 m2 calls = Inr (h2, m2') \<and>
          (\<forall>p \<in> ptrs m. heap_get h2 p = heap_get h1 p) \<and>
          (\<forall>t. content h2 m t = content h1 m t)"
      using content_frame [of m h2 h1] by blast
  qed
  show ?thesis
    using cl obs disj' own on_m on_m2 by blast
qed

theorem Clone_independent_witness:
  "owns [Some (DicomString ''CT''), Some (DicomString ''P1'')]
     [(DicomTag 0x0008 0x0060, 0), (DicomTag 0x0010 0x0020, 1)] \<and>
   Clone [Some (DicomString ''CT''), Some (DicomString ''P1'')]
     [(DicomTag 0x0008 0x0060, 0), (DicomTag 0x0010 0x0020, 1)]
     = Inr ([Some (DicomString ''CT''), Some (DicomString ''P1''), Some (DicomString ''CT''),
             Some (DicomString ''P1'')],
            [(DicomTag 0x0008 0x0060, 2), (DicomTag 0x0010 0x0020, 3)]) \<and>
   perform_all [Some (DicomString ''CT''), Some (DicomString ''P1''), Some (DicomString ''CT''),
      Some (DicomString ''P1'')] [(DicomTag 0x0008 0x0060, 0), (DicomTag 0x0010 0x0020, 1)]
     [Call_SetValue (DicomTag 0x0008 0x0060) (DicomString ''MR''),
      Call_Remove (DicomTag 0x0010 0x0020), Call_Clear]
     = Inr ([None, None, Some (DicomString ''CT''), Some (DicomString ''P1''), None], []) \<and>
   content [None, None, Some (DicomString ''CT''), Some (DicomString ''P1''), None]
     [(DicomTag 0x0008 0x0060, 2), (DicomTag 0x0010 0x0020, 3)] (DicomTag 0x0008 0x0060)
     = Some (DicomString ''CT'') \<and>
   content [None, None, Some (DicomString ''CT''), Some (DicomString ''P1''), None]
     [(DicomTag 0x0008 0x0060, 2), (DicomTag 0x0010 0x0020, 3)] (DicomTag 0x0010 0x0020)
     = Some (DicomString ''P1'') \<and>
   perform_all [Some (DicomString ''CT''), Some (DicomString ''P1''), Some (DicomString ''CT''),
      Some (DicomString ''P1'')] [(DicomTag 0x0008 0x0060, 2), (DicomTag 0x0010 0x0020, 3)]
     [Call_SetValue (DicomTag 0x0008 0x0060) (DicomString ''MR''),
      Call_Remove (DicomTag 0x0010 0x0020)]
     = Inr ([Some (DicomString ''CT''), Some (DicomString ''P1''), None, None,
             Some (DicomString ''MR'')], [(DicomTag 0x0008 0x0060, 4)]) \<and>
   content [Some (DicomString ''CT''), Some (DicomString ''P1''), None, None,
             Some (DicomString ''MR'')]
     [(DicomTag 0x0008 0x0060, 0), (DicomTag 0x0010 0x0020, 1)] (DicomTag 0x0008 0x0060)
     = Some (DicomString ''CT'') \<and>
   content [Some (DicomString ''CT''), Some (DicomString ''P1''), None, None,
             Some (DicomString ''MR'')]
     [(DicomTag 0x0008 0x0060, 0), (DicomTag 0x0010 0x0020, 1)] (DicomTag 0x0010 0x0020)
     = Some (DicomString ''P1'')"
proof -
  let ?h = "[Some (DicomString ''CT''), Some (DicomString ''P1'')]"
  let ?m = "[(DicomTag 0x0008 0x0060, 0::nat), (DicomTag 0x0010 0x0020, 1)]"
  let ?h1 = "[Some (DicomString ''CT''), Some (DicomString ''P1''), Some (DicomString ''CT''),
      Some (DicomString ''P1'')]"
  let ?m2 = "[(DicomTag 0x0008 0x0060, 2::nat), (DicomTag 0x0010 0x0020, 3)]"
  have own: "owns ?h ?m"
    by (simp add: owns_def heap_get_def)
  have clone: "Clone ?h ?m = Inr (?h1, ?m2)"
    by (simp add: run_defs)
  have on_m: "perform_all ?h1 ?m
     [Call_SetValue (DicomTag 0x0008 0x0060) (DicomString ''MR''),
      Call_Remove (DicomTag 0x0010 0x0020), Call_Clear]
     = Inr ([None, None, Some (DicomString ''CT''), Some (DicomString ''P1''), None], [])"
    by (simp add: run_defs)
  have on_m2: "perform_all ?h1 ?m2
     [Call_SetValue (DicomTag 0x0008 0x0060) (DicomString ''MR''),
      Call_Remove (DicomTag 0x0010 0x0020)]
     = Inr ([Some (DicomString ''CT''), Some (DicomString ''P1''), None, None,
             Some (DicomString ''MR'')], [(DicomTag 0x0008 0x0060, 4)])"
    by (simp add: run_defs)
  from Clone_independent [OF own] obtain h1 m2 where
    cl: "Clone ?h ?m = Inr (h1, m2)"
    and a: "\<forall>calls. \<exists>h2 m'. perform_all h1 ?m calls = Inr (h2, m') \<and>
          (\<forall>p \<in> ptrs m2. heap_get h2 p = heap_get h1 p) \<and>
          (\<forall>t. content h2 m2 t = content h1 m2 t)"
    and b: "\<forall>calls. \<exists>h2 m2'. perform_all h1 m2 calls = Inr (h2, m2') \<and>
          (\<forall>p \<in> ptrs ?m. heap_get h2 p = heap_get h1 p) \<and>
          (\<forall>t. content h2 ?m t = content h1 ?m t)"
    by blast
  have eq: "h1 = ?h1" "m2 = ?m2"
    using cl clone by simp_all
  have keep_m2: "content [None, None, Some (DicomString ''CT''), Some (DicomString ''P1''), None]
      ?m2 t = content ?h1 ?m2 t" for t
    using a [rule_format, of "[Call_SetValue (DicomTag 0x0008 0x0060) (DicomString ''MR''),
      Call_Remove (DicomTag 0x0010 0x0020), Call_Clear]"] on_m
    unfolding eq by auto
  have keep_m: "content [Some (DicomString ''CT''), Some (DicomString ''P1''), None, None,
             Some (DicomString ''MR'')] ?m t = content ?h1 ?m t" for t
    using b [rule_format, of "[Call_SetValue (DicomTag 0x0008 0x0060) (DicomString ''MR''),
      Call_Remove (DicomTag 0x0010 0x0020)]"] on_m2
    unfolding eq by auto
  have c1: "content ?h1 ?m2 (DicomTag 0x0008 0x0060) = Some (DicomString ''CT'')"
    "content ?h1 ?m2 (DicomTag 0x0010 0x0020) = Some (DicomString ''P1'')"
    "content ?h1 ?m (DicomTag 0x0008 0x0060) = Some (DicomString ''CT'')"
    "content ?h1 ?m (DicomTag 0x0010 0x0020) = Some (DicomString ''P1'')"
    by (simp_all add: run_defs)
  show ?thesis
    using own clone on_m on_m2 keep_m2 keep_m c1 by simp
qed

section \<open>The static-resource responder\<close>

text \<open>
  C8. For a request whose method is not \<open>GET\<close>, \<open>Handle\<close> makes one call on the output,
  \<open>SendMethodNotAllowedError\<close> advertising \<open>GET\<close>, and nothing else: no file is answered,
  and what it does is the same on every file system.
\<close>

theorem Handle_method_not_allowed:
  "method \<noteq> ''GET'' \<Longrightarrow>
   Handle FlattenUri fs this method uri headers arguments body
     = [SendMethodNotAllowedError ''GET''] \<and>
   Handle FlattenUri fs' this method uri headers arguments body
     = Handle FlattenUri fs this method uri headers arguments body"
  by (simp add: Handle_def)

theorem Handle_method_not_allowed_witness:
  "''POST'' \<noteq> ''GET'' \<and>
   Handle concat
     \<lparr>fs_exists = (\<lambda>p. True), fs_is_regular_file = (\<lambda>p. True),
      fs_is_directory = (\<lambda>p. False), fs_directory_iterator = (\<lambda>p. [])\<rparr>
     \<lparr>pimpl_baseUri = [''app''], pimpl_root = [''/srv''], listDirectoryContent = True\<rparr>
     ''POST'' [''app'', ''index.html''] [] [] []
     = [SendMethodNotAllowedError ''GET'']"
  using Handle_method_not_allowed [of "''POST''" concat
     "\<lparr>fs_exists = (\<lambda>p. True), fs_is_regular_file = (\<lambda>p. True),
      fs_is_directory = (\<lambda>p. False), fs_directory_iterator = (\<lambda>p. [])\<rparr>"
     "\<lparr>pimpl_baseUri = [''app''], pimpl_root = [''/srv''], listDirectoryContent = True\<rparr>"
     "[''app'', ''index.html'']" "[]" "[]" "[]"]
  by simp

text \<open>
  C9. A handler that the constructor returns has directory listing disabled. For such a
  handler, a \<open>GET\<close> request whose resolved path exists, is a directory and is not a regular
  file is answered with the 404 header, not with a listing. The file system at the time
  of the request need not be the one the constructor saw.
\<close>

theorem fresh_handler_directory_not_found:
  assumes "FilesystemHttpHandler_ctor SplitUriComponents fs0 baseUri root = Inr this"
    and "Handle_loop (pimpl_root this) uri (length (pimpl_baseUri this)) = p"
    and "fs_exists fs p" and "fs_is_directory fs p" and "\<not> fs_is_regular_file fs p"
  shows "\<not> listDirectoryContent this \<and>
         Handle FlattenUri fs this ''GET'' uri headers arguments body
           = [SendHeader Orthanc_HttpStatus_404_NotFound]"
proof -
  from assms(1) have "\<not> listDirectoryContent this"
    by (cases "SplitUriComponents baseUri") (auto simp: FilesystemHttpHandler_ctor_def Let_def split: if_splits)
  with assms(2-) show ?thesis
    by (simp add: Handle_def)
qed

theorem fresh_handler_directory_not_found_witness:
  "FilesystemHttpHandler_ctor (\<lambda>s. Inr [''app''])
     \<lparr>fs_exists = (\<lambda>p. p = [''/srv''] \<or> p = [''/srv'', ''d'']),
      fs_is_regular_file = (\<lambda>p. False),
      fs_is_directory = (\<lambda>p. p = [''/srv''] \<or> p = [''/srv'', ''d'']),
      fs_directory_iterator = (\<lambda>p. [])\<rparr> ''/app'' ''/srv''
     = Inr \<lparr>pimpl_baseUri = [''app''], pimpl_root = [''/srv''], listDirectoryContent = False\<rparr> \<and>
   Handle_loop [''/srv''] [''app'', ''d''] (length [''app'']) = [''/srv'', ''d''] \<and>
   Handle concat
     \<lparr>fs_exists = (\<lambda>p. p = [''/srv''] \<or> p = [''/srv'', ''d'']),
      fs_is_regular_file = (\<lambda>p. False),
      fs_is_directory = (\<lambda>p. p = [''/srv''] \<or> p = [''/srv'', ''d'']),
      fs_directory_iterator = (\<lambda>p. [])\<rparr>
     \<lparr>pimpl_baseUri = [''app''], pimpl_root = [''/srv''], listDirectoryContent = False\<rparr>
     ''GET'' [''app'', ''d''] [] [] []
     = [SendHeader Orthanc_HttpStatus_404_NotFound]"
proof -
  let ?fs = "\<lparr>fs_exists = (\<lambda>p. p = [''/srv''] \<or> p = [''/srv'', ''d'']),
      fs_is_regular_file = (\<lambda>p. False),
      fs_is_directory = (\<lambda>p. p = [''/srv''] \<or> p = [''/srv'', ''d'']),
      fs_directory_iterator = (\<lambda>p. [])\<rparr>"
  let ?H = "\<lparr>pimpl_baseUri = [''app''], pimpl_root = [''/srv''], listDirectoryContent = False\<rparr>"
  have ctor: "FilesystemHttpHandler_ctor (\<lambda>s. Inr [''app'']) ?fs ''/app'' ''/srv'' = Inr ?H"
    by (simp add: FilesystemHttpHandler_ctor_def)
  have p: "Handle_loop (pimpl_root ?H) [''app'', ''d''] (length (pimpl_baseUri ?H)) = [''/srv'', ''d'']"
    by simp
  have q: "fs_exists ?fs [''/srv'', ''d'']" "fs_is_directory ?fs [''/srv'', ''d'']"
    "\<not> fs_is_regular_file ?fs [''/srv'', ''d'']"
    by simp_all
  show ?thesis
    using fresh_handler_directory_not_found [OF ctor p q, of concat "[]" "[]" "[]"] ctor p
    by (simp del: Handle_loop.simps)
qed

end
